theory Spec2Isabelle
  imports Main "HOL-Library.Word" "HOL-Library.Sublist" "HOL-Library.AList"
begin

unbundle bit_operations_syntax

section \<open>The App Connector (package appc) as a shallow embedding\<close>

text \<open>
  The source of package \<^verbatim>\<open>appc\<close> is the second half of
  \<^verbatim>\<open>src/cmd/tailscale/cli/risks.go\<close> (lines 70 to 554). Every function of that
  package is embedded below under its own name. The Go standard library
  (\<^verbatim>\<open>net/netip\<close>, \<^verbatim>\<open>slices\<close>, \<^verbatim>\<open>strings\<close>) is modelled where the
  package calls it; the collaborators the package only knows through an interface or an
  import (the route advertiser, the DNS message parser, \<^verbatim>\<open>dnsname.HasSuffix\<close>, the
  methods of \<^verbatim>\<open>ipn.RouteInfo\<close>) are parameters.
\<close>

subsection \<open>net/netip: addresses and prefixes\<close>

text \<open>
  A \<^verbatim>\<open>netip.Addr\<close> is the zero value, an IPv4 address or an IPv6 address. The
  addresses of this package come from \<^verbatim>\<open>netip.AddrFrom4\<close> and
  \<^verbatim>\<open>netip.AddrFrom16\<close> only, which never attach a zone, so zones are left out.
  \<^verbatim>\<open>AddrFrom16\<close> does not unmap a 4-in-6 address: it stays an IPv6 address.
\<close>

datatype addr = AddrZero | Addr4 "32 word" | Addr16 "128 word"

fun BitLen :: "addr \<Rightarrow> int" where
  "BitLen AddrZero = 0"
| "BitLen (Addr4 _) = 32"
| "BitLen (Addr16 _) = 128"

text \<open>The 128-bit value \<^verbatim>\<open>Compare\<close> orders addresses of one family by.\<close>

fun addrValue :: "addr \<Rightarrow> nat" where
  "addrValue AddrZero = 0"
| "addrValue (Addr4 a) = unat a"
| "addrValue (Addr16 a) = unat a"

text \<open>
  \<^verbatim>\<open>Addr.Compare\<close>: first by bit length (zero value, then IPv4, then IPv6), then by
  the value.
\<close>

definition Compare :: "addr \<Rightarrow> addr \<Rightarrow> int" where
  "Compare ip ip2 =
     (if BitLen ip < BitLen ip2 then - 1
      else if BitLen ip > BitLen ip2 then 1
      else if addrValue ip < addrValue ip2 then - 1
      else if addrValue ip > addrValue ip2 then 1
      else 0)"

text \<open>
  A \<^verbatim>\<open>netip.Prefix\<close> is an address and \<^verbatim>\<open>bitsPlusOne\<close>, which is zero for
  an invalid prefix. Go's \<^verbatim>\<open>==\<close> on prefixes compares both fields, as the equality
  of the datatype does. \<^verbatim>\<open>PrefixFrom\<close> does not mask the address.
\<close>

datatype prefix = Prefix (prefixAddr: addr) (bitsPlusOne: nat)

definition PrefixFrom :: "addr \<Rightarrow> int \<Rightarrow> prefix" where
  "PrefixFrom ip bits =
     Prefix ip (if ip \<noteq> AddrZero \<and> 0 \<le> bits \<and> bits \<le> BitLen ip then nat bits + 1 else 0)"

definition IsValid :: "prefix \<Rightarrow> bool" where
  "IsValid p = (bitsPlusOne p > 0)"

definition Bits :: "prefix \<Rightarrow> int" where
  "Bits p = int (bitsPlusOne p) - 1"

definition IsSingleIP :: "prefix \<Rightarrow> bool" where
  "IsSingleIP p = (IsValid p \<and> Bits p = BitLen (prefixAddr p))"

text \<open>
  \<^verbatim>\<open>Prefix.Contains\<close>: false for an invalid prefix and across families; otherwise
  the xor of the two addresses has no bit set among the leading \<^verbatim>\<open>Bits\<close> ones
  (the library shifts the IPv4 xor right by \<^verbatim>\<open>32 - Bits\<close> and masks the IPv6 xor
  with the leading \<^verbatim>\<open>Bits\<close> ones; both say that the bits above the host part are
  zero).
\<close>

definition Contains :: "prefix \<Rightarrow> addr \<Rightarrow> bool" where
  "Contains p a =
     (if \<not> IsValid p then False
      else if BitLen (prefixAddr p) = 0 \<or> BitLen a = 0 \<or> BitLen (prefixAddr p) \<noteq> BitLen a
      then False
      else (case (a, prefixAddr p) of
              (Addr4 x, Addr4 y) \<Rightarrow> drop_bit (nat (32 - Bits p)) (x XOR y) = 0
            | (Addr16 x, Addr16 y) \<Rightarrow> drop_bit (nat (128 - Bits p)) (x XOR y) = 0
            | _ \<Rightarrow> False))"

text \<open>The single-address prefix of an address: \<^verbatim>\<open>netip.PrefixFrom(a, a.BitLen())\<close>.\<close>

definition singlePrefix :: "addr \<Rightarrow> prefix" where
  "singlePrefix a = PrefixFrom a (BitLen a)"

subsection \<open>Package slices\<close>

text \<open>
  \<^verbatim>\<open>slices.BinarySearchFunc\<close>, as the library writes it: the loop keeps
  \<^verbatim>\<open>i \<le> h < j\<close> with \<^verbatim>\<open>h\<close> the midpoint, and the answer is \<^verbatim>\<open>i\<close> with
  the flag \<^verbatim>\<open>i < n && cmp(x[i], target) == 0\<close>.
\<close>

function bsearchLoop :: "('a \<Rightarrow> 'b \<Rightarrow> int) \<Rightarrow> 'a list \<Rightarrow> 'b \<Rightarrow> nat \<Rightarrow> nat \<Rightarrow> nat" where
  "bsearchLoop cmp x target i j =
     (if i < j then
        (let h = (i + j) div 2 in
         if cmp (x ! h) target < 0 then bsearchLoop cmp x target (h + 1) j
         else bsearchLoop cmp x target i h)
      else i)"
  by pat_completeness auto
termination
  by (relation "measure (\<lambda>(cmp, x, target, i, j). j - i)") auto

definition BinarySearchFunc :: "'a list \<Rightarrow> 'b \<Rightarrow> ('a \<Rightarrow> 'b \<Rightarrow> int) \<Rightarrow> nat \<times> bool" where
  "BinarySearchFunc x target cmp =
     (let i = bsearchLoop cmp x target 0 (length x)
      in (i, i < length x \<and> cmp (x ! i) target = 0))"

text \<open>
  \<^verbatim>\<open>slices.SortFunc\<close> sorts in place with an unstable algorithm. For a comparison that
  is a total order and returns 0 on equal elements only, as \<^verbatim>\<open>compareAddr\<close> is, the
  sorted arrangement of a list is unique, so insertion sort computes the same slice.
\<close>

fun insertFunc :: "('a \<Rightarrow> 'a \<Rightarrow> int) \<Rightarrow> 'a \<Rightarrow> 'a list \<Rightarrow> 'a list" where
  "insertFunc cmp a [] = [a]"
| "insertFunc cmp a (b # bs) = (if cmp a b \<le> 0 then a # b # bs else b # insertFunc cmp a bs)"

fun SortFunc :: "'a list \<Rightarrow> ('a \<Rightarrow> 'a \<Rightarrow> int) \<Rightarrow> 'a list" where
  "SortFunc [] cmp = []"
| "SortFunc (a # as) cmp = insertFunc cmp a (SortFunc as cmp)"

text \<open>\<^verbatim>\<open>slices.Delete(s, i, j)\<close> removes \<^verbatim>\<open>s[i:j]\<close>; it panics unless
  \<^verbatim>\<open>i \<le> j \<le> len(s)\<close>. The package calls it with \<^verbatim>\<open>j = i + 1\<close> at an index the
  binary search found, which is in range.\<close>

definition Delete :: "'a list \<Rightarrow> nat \<Rightarrow> nat \<Rightarrow> 'a list" where
  "Delete s i j = take i s @ drop j s"

definition compareAddr :: "addr \<Rightarrow> addr \<Rightarrow> int" where
  "compareAddr l r = Compare l r"

subsection \<open>Package strings\<close>

text \<open>
  \<^verbatim>\<open>strings.HasPrefix\<close> and \<^verbatim>\<open>strings.TrimSuffix\<close> on byte strings.
  \<^verbatim>\<open>strings.ToLower\<close> maps Unicode letters and is a parameter (see
  \<open>externs\<close> below).
\<close>

definition HasPrefix :: "string \<Rightarrow> string \<Rightarrow> bool" where
  "HasPrefix s pre = (take (length pre) s = pre)"

definition TrimSuffix :: "string \<Rightarrow> string \<Rightarrow> string" where
  "TrimSuffix s suf =
     (if length suf \<le> length s \<and> drop (length s - length suf) s = suf
      then take (length s - length suf) s else s)"

subsection \<open>The collaborators\<close>

text \<open>
  \<^verbatim>\<open>ipn.RouteInfo\<close> as far as the package reads and writes it: the operator
  prefixes \<^verbatim>\<open>Corp\<close> and the map \<^verbatim>\<open>Discovered\<close> from a domain to a pointer to
  its \<^verbatim>\<open>ipn.DatedRoute\<close>. The record type \<open>'dr\<close> stands for
  \<^verbatim>\<open>ipn.DatedRoute\<close>, which the package never looks into; a key that is present
  with a nil pointer maps to \<open>Some None\<close>.
\<close>

record 'dr RouteInfo =
  Corp :: "prefix list"
  Discovered :: "string \<rightharpoonup> 'dr option"

text \<open>
  What the package imports and \<^verbatim>\<open>src/\<close> does not hold, as parameters:
  \<^verbatim>\<open>strings.ToLower\<close>, \<^verbatim>\<open>dnsname.HasSuffix\<close> and the two methods of
  \<^verbatim>\<open>ipn.RouteInfo\<close> that \<^verbatim>\<open>ObserveDNSResponse\<close> calls (the second may
  change the route info it is called on, so it returns it).
\<close>

record 'dr externs =
  ToLower :: "string \<Rightarrow> string"
  HasSuffix :: "string \<Rightarrow> string \<Rightarrow> bool"
  UpdateRoutesInDiscoveredForDomain :: "string \<Rightarrow> prefix list \<Rightarrow> 'dr RouteInfo \<Rightarrow> 'dr RouteInfo"
  OutDatedRoutesInDiscoveredForDomain :: "string \<Rightarrow> 'dr RouteInfo \<Rightarrow> prefix list \<times> 'dr RouteInfo"

text \<open>
  Modelled from the spec: the implementation behind the interface
  \<^verbatim>\<open>RouteAdvertiser\<close> is not in \<^verbatim>\<open>src/\<close>. Section 6 of the specification
  gives its contract: \<^verbatim>\<open>ReadRouteInfoFromStore\<close> returns the latest durable
  snapshot, \<^verbatim>\<open>UpdateRoutesInfoToStore\<close> persists a full snapshot, replacing the
  previous one, and \<^verbatim>\<open>AdvertiseRoute\<close> and \<^verbatim>\<open>UnadvertiseRoute\<close> program
  routes and may return an error. The model keeps the snapshot, the trace of the calls that
  can change the collaborator, and \<open>failing\<close>, which says for every history and
  call whether the call returns an error: any deterministic collaborator is an instance.
\<close>

datatype 'dr call =
    AdvertiseRouteCall "prefix list"
  | UnadvertiseRouteCall "prefix list"
  | UpdateRoutesInfoToStoreCall "'dr RouteInfo"

record 'dr RouteAdvertiser =
  stored :: "'dr RouteInfo"
  calls :: "'dr call list"
  failing :: "'dr call list \<Rightarrow> 'dr call \<Rightarrow> bool"

text \<open>Each call returns whether it failed and the collaborator after the call.\<close>

definition AdvertiseRoute :: "prefix list \<Rightarrow> 'dr RouteAdvertiser \<Rightarrow> bool \<times> 'dr RouteAdvertiser" where
  "AdvertiseRoute ps ra =
     (failing ra (calls ra) (AdvertiseRouteCall ps),
      ra\<lparr>calls := calls ra @ [AdvertiseRouteCall ps]\<rparr>)"

definition UnadvertiseRoute :: "prefix list \<Rightarrow> 'dr RouteAdvertiser \<Rightarrow> bool \<times> 'dr RouteAdvertiser" where
  "UnadvertiseRoute ps ra =
     (failing ra (calls ra) (UnadvertiseRouteCall ps),
      ra\<lparr>calls := calls ra @ [UnadvertiseRouteCall ps]\<rparr>)"

definition ReadRouteInfoFromStore :: "'dr RouteAdvertiser \<Rightarrow> 'dr RouteInfo" where
  "ReadRouteInfoFromStore ra = stored ra"

text \<open>The package ignores the error \<^verbatim>\<open>UpdateRoutesInfoToStore\<close> returns.\<close>

definition UpdateRoutesInfoToStore :: "'dr RouteInfo \<Rightarrow> 'dr RouteAdvertiser \<Rightarrow> 'dr RouteAdvertiser" where
  "UpdateRoutesInfoToStore ri ra =
     ra\<lparr>stored := ri, calls := calls ra @ [UpdateRoutesInfoToStoreCall ri]\<rparr>"

subsection \<open>The AppConnector\<close>

text \<open>
  The closures \<^verbatim>\<open>scheduleAdvertisement\<close> and \<^verbatim>\<open>scheduleUndvertisement\<close> add to
  the queue, by what they captured, and the two configuration updates of the public surface.
\<close>

datatype task =
    AdvertisementTask string "prefix list"
  | UnadvertisementTask string "prefix list"
  | UpdateDomainsTask "string list"
  | UpdateDomainsAndRoutesTask "string list" "prefix list"

text \<open>
  The fields of \<^verbatim>\<open>AppConnector\<close> (the logger and the mutex apart).
  \<^verbatim>\<open>domains\<close> is \<open>None\<close> while the Go map is nil, as
  \<^verbatim>\<open>NewAppConnector\<close> leaves it: a nil map reads as the empty map, and an
  assignment to an entry of a nil map panics.
\<close>

record 'dr AppConnector =
  routeAdvertiser :: "'dr RouteAdvertiser"
  domains :: "(string \<rightharpoonup> addr list) option"
  controlRoutes :: "prefix list"
  wildcards :: "string list"
  queue :: "task list"

datatype panic = AssignmentToEntryInNilMap

definition NewAppConnector :: "'dr RouteAdvertiser \<Rightarrow> 'dr AppConnector" where
  "NewAppConnector ra =
     \<lparr>routeAdvertiser = ra, domains = None, controlRoutes = [], wildcards = [], queue = []\<rparr>"

text \<open>\<^verbatim>\<open>v, ok := e.domains[d]\<close>, \<^verbatim>\<open>e.domains[d]\<close> (nil when absent) and
  \<^verbatim>\<open>e.domains[d] = v\<close>.\<close>

definition lookupDomain :: "'dr AppConnector \<Rightarrow> string \<Rightarrow> addr list option" where
  "lookupDomain e d = (case domains e of None \<Rightarrow> None | Some m \<Rightarrow> m d)"

definition domainAddrs :: "'dr AppConnector \<Rightarrow> string \<Rightarrow> addr list" where
  "domainAddrs e d = (case lookupDomain e d of None \<Rightarrow> [] | Some as \<Rightarrow> as)"

definition setDomain :: "string \<Rightarrow> addr list \<Rightarrow> 'dr AppConnector \<Rightarrow> panic + 'dr AppConnector" where
  "setDomain d as e =
     (case domains e of
        None \<Rightarrow> Inl AssignmentToEntryInNilMap
      | Some m \<Rightarrow> Inr (e\<lparr>domains := Some (m(d \<mapsto> as))\<rparr>))"

text \<open>\<^verbatim>\<open>slices.SortFunc(e.domains[domain], compareAddr)\<close> sorts the slice of the entry
  in place; with no entry there is nothing to sort.\<close>

definition sortDomain :: "string \<Rightarrow> 'dr AppConnector \<Rightarrow> 'dr AppConnector" where
  "sortDomain d e =
     (case domains e of
        None \<Rightarrow> e
      | Some m \<Rightarrow>
          (case m d of
             None \<Rightarrow> e
           | Some as \<Rightarrow> e\<lparr>domains := Some (m(d \<mapsto> SortFunc as compareAddr))\<rparr>))"

definition hasDomainAddrLocked :: "'dr AppConnector \<Rightarrow> string \<Rightarrow> addr \<Rightarrow> bool" where
  "hasDomainAddrLocked e domain a = snd (BinarySearchFunc (domainAddrs e domain) a compareAddr)"

definition addDomainAddrLocked :: "string \<Rightarrow> addr \<Rightarrow> 'dr AppConnector \<Rightarrow> panic + 'dr AppConnector" where
  "addDomainAddrLocked domain a e =
     (case setDomain domain (domainAddrs e domain @ [a]) e of
        Inl p \<Rightarrow> Inl p
      | Inr e1 \<Rightarrow> Inr (sortDomain domain e1))"

definition deleteDomainAddrLocked :: "string \<Rightarrow> addr \<Rightarrow> 'dr AppConnector \<Rightarrow> panic + 'dr AppConnector" where
  "deleteDomainAddrLocked domain a e =
     (case BinarySearchFunc (domainAddrs e domain) a compareAddr of
        (ind, ok) \<Rightarrow>
          if \<not> ok then Inr e
          else (case setDomain domain (Delete (domainAddrs e domain) ind (ind + 1)) e of
                  Inl p \<Rightarrow> Inl p
                | Inr e1 \<Rightarrow> Inr (sortDomain domain e1)))"

subsection \<open>updateDomains\<close>

text \<open>
  The variables of the loop over the supplied names: the maps under construction
  (\<^verbatim>\<open>e.domains\<close>, \<^verbatim>\<open>routeInfo.Discovered\<close>, \<^verbatim>\<open>e.wildcards\<close>) and the old
  maps, from which the loop deletes what it has carried over.
\<close>

record 'dr updateDomainsVars =
  newDomains :: "string \<rightharpoonup> addr list"
  newDiscovered :: "string \<rightharpoonup> 'dr option"
  newWildcards :: "string list"
  oldDomains :: "string \<rightharpoonup> addr list"
  oldDiscovered :: "string \<rightharpoonup> 'dr option"

text \<open>
  \<^verbatim>\<open>for _, d := range domains\<close>. Reading an absent key of \<^verbatim>\<open>oldDomains\<close> gives
  the nil slice and of \<^verbatim>\<open>oldDiscovered\<close> the nil pointer, and the assignment stores
  them under the key.
\<close>

fun updateDomainsLoop :: "'dr externs \<Rightarrow> string list \<Rightarrow> 'dr updateDomainsVars \<Rightarrow> 'dr updateDomainsVars" where
  "updateDomainsLoop X [] v = v"
| "updateDomainsLoop X (d0 # ds) v =
     (let d = ToLower X d0 in
      if length d = 0 then updateDomainsLoop X ds v
      else if HasPrefix d ''*.'' then
        updateDomainsLoop X ds (v\<lparr>newWildcards := newWildcards v @ [drop 2 d]\<rparr>)
      else
        updateDomainsLoop X ds
          (v\<lparr>newDomains := (newDomains v)(d \<mapsto> (case oldDomains v d of None \<Rightarrow> [] | Some as \<Rightarrow> as)),
             newDiscovered := (newDiscovered v)(d \<mapsto> (case oldDiscovered v d of None \<Rightarrow> None | Some dr \<Rightarrow> dr)),
             oldDomains := (oldDomains v)(d := None),
             oldDiscovered := (oldDiscovered v)(d := None)\<rparr>))"

text \<open>\<^verbatim>\<open>for _, wc := range e.wildcards\<close> with its \<^verbatim>\<open>break\<close> at the first suffix
  that matches.\<close>

fun matchesWildcard :: "'dr externs \<Rightarrow> string \<Rightarrow> string list \<Rightarrow> bool" where
  "matchesWildcard X d [] = False"
| "matchesWildcard X d (wc # wcs) = (if HasSuffix X d wc then True else matchesWildcard X d wcs)"

text \<open>
  The two loops over what is left of the old maps. A \<^verbatim>\<open>range\<close> over a Go map visits
  every key once, in an order that is not specified; each iteration assigns under its own
  key only, so the outcome does not depend on the order and is given key by key.
\<close>

definition carryForward :: "'dr externs \<Rightarrow> string list \<Rightarrow> (string \<rightharpoonup> 'v) \<Rightarrow> (string \<rightharpoonup> 'v) \<Rightarrow> (string \<rightharpoonup> 'v)" where
  "carryForward X wcs old new =
     (\<lambda>d. case old d of
            None \<Rightarrow> new d
          | Some v \<Rightarrow> if matchesWildcard X d wcs then Some v else new d)"

definition updateDomains :: "'dr externs \<Rightarrow> string list \<Rightarrow> 'dr AppConnector \<Rightarrow> 'dr AppConnector" where
  "updateDomains X names e =
     (let routeInfo = ReadRouteInfoFromStore (routeAdvertiser e);
          v = updateDomainsLoop X names
                \<lparr>newDomains = Map.empty, newDiscovered = Map.empty, newWildcards = [],
                 oldDomains = (case domains e of None \<Rightarrow> Map.empty | Some m \<Rightarrow> m),
                 oldDiscovered = Discovered routeInfo\<rparr>;
          doms = carryForward X (newWildcards v) (oldDomains v) (newDomains v);
          disc = carryForward X (newWildcards v) (oldDiscovered v) (newDiscovered v)
      in e\<lparr>routeAdvertiser :=
              UpdateRoutesInfoToStore (routeInfo\<lparr>Discovered := disc\<rparr>) (routeAdvertiser e),
            domains := Some doms,
            wildcards := newWildcards v\<rparr>)"

subsection \<open>updateRoutes\<close>

text \<open>
  The scan for subsumed single-address routes. \<^verbatim>\<open>for _, addr := range e.domains\<close>
  visits the address lists in an order Go does not specify, and the first match depends on
  it: the order of the keys in the visit for the \<open>i\<close>-th route is the parameter
  \<open>ord i\<close>. \<open>Some pfx\<close> is the \<^verbatim>\<open>continue nextRoute\<close> after the append.
\<close>

fun scanAddrs :: "prefix \<Rightarrow> addr list \<Rightarrow> prefix option" where
  "scanAddrs r [] = None"
| "scanAddrs r (a # as) =
     (if Contains r a \<and> PrefixFrom a (BitLen a) \<noteq> r then Some (PrefixFrom a (BitLen a))
      else scanAddrs r as)"

fun scanDomains :: "prefix \<Rightarrow> addr list list \<Rightarrow> prefix option" where
  "scanDomains r [] = None"
| "scanDomains r (addr # rest) =
     (case scanAddrs r addr of Some pfx \<Rightarrow> Some pfx | None \<Rightarrow> scanDomains r rest)"

definition rangeDomains :: "'dr AppConnector \<Rightarrow> string list \<Rightarrow> addr list list" where
  "rangeDomains e keys = List.map_filter (lookupDomain e) keys"

fun subsumedLoop :: "(nat \<Rightarrow> string list) \<Rightarrow> nat \<Rightarrow> prefix list \<Rightarrow> 'dr AppConnector \<Rightarrow> prefix list \<Rightarrow> prefix list" where
  "subsumedLoop ord i [] e toRemove = toRemove"
| "subsumedLoop ord i (r # rs) e toRemove =
     (case scanDomains r (rangeDomains e (ord i)) of
        Some pfx \<Rightarrow> subsumedLoop ord (i + 1) rs e (toRemove @ [pfx])
      | None \<Rightarrow> subsumedLoop ord (i + 1) rs e toRemove)"

text \<open>The first loop: the old operator prefixes that \<^verbatim>\<open>slices.Contains(routes, ipp)\<close>
  does not find among the new ones.\<close>

fun staleRoutes :: "prefix list \<Rightarrow> prefix list \<Rightarrow> prefix list \<Rightarrow> prefix list" where
  "staleRoutes [] routes toRemove = toRemove"
| "staleRoutes (ipp # oldCorp) routes toRemove =
     (if ipp \<in> set routes then staleRoutes oldCorp routes toRemove
      else staleRoutes oldCorp routes (toRemove @ [ipp]))"

definition updateRoutes :: "(nat \<Rightarrow> string list) \<Rightarrow> prefix list \<Rightarrow> 'dr AppConnector \<Rightarrow> 'dr AppConnector" where
  "updateRoutes ord routes e =
     (if controlRoutes e = routes then e
      else
        (let routeInfo = ReadRouteInfoFromStore (routeAdvertiser e);
             toRemove = staleRoutes (Corp routeInfo) routes [];
             ra1 = snd (UnadvertiseRoute toRemove (routeAdvertiser e));
             routeInfo1 = routeInfo\<lparr>Corp := routes\<rparr>
         in case AdvertiseRoute routes ra1 of
              (err, ra2) \<Rightarrow>
                if err then e\<lparr>routeAdvertiser := ra2\<rparr>
                else
                  (let toRemove2 = subsumedLoop ord 0 routes e [];
                       ra3 = snd (UnadvertiseRoute toRemove2 ra2)
                   in e\<lparr>controlRoutes := routes,
                         routeAdvertiser := UpdateRoutesInfoToStore routeInfo1 ra3\<rparr>)))"

subsection \<open>The DNS message parser\<close>

text \<open>
  \<^verbatim>\<open>dnsmessage.Parser\<close> is a parameter: a type \<open>'p\<close> of parser states and the
  methods \<^verbatim>\<open>ObserveDNSResponse\<close> calls, each returning \<open>None\<close> for an error and
  otherwise what it read and the parser after the call. \<^verbatim>\<open>AnswerHeader\<close> has the
  third outcome \<^verbatim>\<open>ErrSectionDone\<close>. Of a resource header the package reads the name
  (\<^verbatim>\<open>h.Name.String()\<close>), the type and the class.
\<close>

record ResourceHeader =
  hName :: string
  hType :: "16 word"
  hClass :: "16 word"

datatype 'p headerResult = ErrSectionDone | HeaderError | Header ResourceHeader 'p

record 'p Parser =
  Start :: "8 word list \<Rightarrow> 'p option"
  SkipAllQuestions :: "'p \<Rightarrow> 'p option"
  AnswerHeader :: "'p \<Rightarrow> 'p headerResult"
  SkipAnswer :: "'p \<Rightarrow> 'p option"
  CNAMEResource :: "'p \<Rightarrow> (string \<times> 'p) option"
  AResource :: "'p \<Rightarrow> (32 word \<times> 'p) option"
  AAAAResource :: "'p \<Rightarrow> (128 word \<times> 'p) option"

definition ClassINET :: "16 word" where "ClassINET = 1"
definition TypeA :: "16 word" where "TypeA = 1"
definition TypeCNAME :: "16 word" where "TypeCNAME = 5"
definition TypeAAAA :: "16 word" where "TypeAAAA = 28"

text \<open>
  \<^verbatim>\<open>addressRecords\<close> keeps its entries in a list with one entry for a name (the
  map assignment of \<^verbatim>\<open>mak.Set\<close> is \<open>AList.update\<close>); \<^verbatim>\<open>cnameChain\<close> is only
  looked up.
\<close>

type_synonym cnameChain = "string \<rightharpoonup> string"
type_synonym addressRecords = "(string \<times> addr list) list"

definition recordsOf :: "addressRecords \<Rightarrow> string \<Rightarrow> addr list" where
  "recordsOf ar domain = (case map_of ar domain of None \<Rightarrow> [] | Some as \<Rightarrow> as)"

text \<open>
  The loop over the answer section. The result is \<open>None\<close> when the loop does not end,
  \<open>Some None\<close> when a method of the parser returned an error (the function returns),
  and \<open>Some (Some (cnameChain, addressRecords))\<close> at \<^verbatim>\<open>ErrSectionDone\<close>. With an
  empty owner name the loop continues without reading the resource.
\<close>

partial_function (option) answersLoop ::
  "'dr externs \<Rightarrow> 'p Parser \<Rightarrow> 'p \<Rightarrow> cnameChain \<Rightarrow> addressRecords \<Rightarrow> (cnameChain \<times> addressRecords) option option" where
  "answersLoop X P p cn ar =
     (case AnswerHeader P p of
        ErrSectionDone \<Rightarrow> Some (Some (cn, ar))
      | HeaderError \<Rightarrow> Some None
      | Header h p1 \<Rightarrow>
          if hClass h \<noteq> ClassINET then
            (case SkipAnswer P p1 of None \<Rightarrow> Some None | Some p2 \<Rightarrow> answersLoop X P p2 cn ar)
          else if hType h \<noteq> TypeCNAME \<and> hType h \<noteq> TypeA \<and> hType h \<noteq> TypeAAAA then
            (case SkipAnswer P p1 of None \<Rightarrow> Some None | Some p2 \<Rightarrow> answersLoop X P p2 cn ar)
          else
            (let domain = TrimSuffix (ToLower X (hName h)) ''.'' in
             if length domain = 0 then answersLoop X P p1 cn ar
             else if hType h = TypeCNAME then
               (case CNAMEResource P p1 of
                  None \<Rightarrow> Some None
                | Some (res, p2) \<Rightarrow>
                    (let cname = TrimSuffix (ToLower X res) ''.'' in
                     if length cname = 0 then answersLoop X P p2 cn ar
                     else answersLoop X P p2 (cn(cname \<mapsto> domain)) ar))
             else if hType h = TypeA then
               (case AResource P p1 of
                  None \<Rightarrow> Some None
                | Some (r, p2) \<Rightarrow>
                    answersLoop X P p2 cn
                      (AList.update domain (recordsOf ar domain @ [Addr4 r]) ar))
             else
               (case AAAAResource P p1 of
                  None \<Rightarrow> Some None
                | Some (r, p2) \<Rightarrow>
                    answersLoop X P p2 cn
                      (AList.update domain (recordsOf ar domain @ [Addr16 r]) ar))))"

subsection \<open>findRoutedDomainLocked and isAddrKnownLocked\<close>

text \<open>
  The inner loop of \<^verbatim>\<open>findRoutedDomainLocked\<close> over the wildcards: at the first suffix
  that matches it assigns \<^verbatim>\<open>e.domains[domain] = nil\<close>, sets \<^verbatim>\<open>isRouted\<close> and
  breaks. It returns \<^verbatim>\<open>isRouted\<close>, which is false when the loop starts.
\<close>

fun matchWildcards :: "'dr externs \<Rightarrow> string \<Rightarrow> string list \<Rightarrow> 'dr AppConnector \<Rightarrow> panic + (bool \<times> 'dr AppConnector)" where
  "matchWildcards X domain [] e = Inr (False, e)"
| "matchWildcards X domain (wc # wcs) e =
     (if HasSuffix X domain wc then
        (case setDomain domain [] e of Inl p \<Rightarrow> Inl p | Inr e1 \<Rightarrow> Inr (True, e1))
      else matchWildcards X domain wcs e)"

text \<open>
  The outer loop. It ends at a name that is a key of \<^verbatim>\<open>e.domains\<close> or has no entry in
  \<^verbatim>\<open>cnameChain\<close>; after the wildcards it goes on to the next name whenever
  \<^verbatim>\<open>cnameChain\<close> has one. A chain with a cycle can keep it running:
  \<open>None\<close> is that outcome.
\<close>

partial_function (option) findRoutedDomainLocked ::
  "'dr externs \<Rightarrow> string \<Rightarrow> cnameChain \<Rightarrow> 'dr AppConnector \<Rightarrow> (panic + (string \<times> bool \<times> 'dr AppConnector)) option" where
  "findRoutedDomainLocked X domain cnameChain e =
     (if lookupDomain e domain \<noteq> None then Some (Inr (domain, True, e))
      else
        (case matchWildcards X domain (wildcards e) e of
           Inl p \<Rightarrow> Some (Inl p)
         | Inr (isRouted, e1) \<Rightarrow>
             (case cnameChain domain of
                None \<Rightarrow> Some (Inr (domain, isRouted, e1))
              | Some next \<Rightarrow> findRoutedDomainLocked X next cnameChain e1)))"

fun isAddrKnownLoop :: "prefix list \<Rightarrow> string \<Rightarrow> addr \<Rightarrow> 'dr AppConnector \<Rightarrow> panic + (bool \<times> 'dr AppConnector)" where
  "isAddrKnownLoop [] domain a e = Inr (False, e)"
| "isAddrKnownLoop (route # routes) domain a e =
     (if Contains route a then
        (case addDomainAddrLocked domain a e of Inl p \<Rightarrow> Inl p | Inr e1 \<Rightarrow> Inr (True, e1))
      else isAddrKnownLoop routes domain a e)"

definition isAddrKnownLocked :: "string \<Rightarrow> addr \<Rightarrow> 'dr AppConnector \<Rightarrow> panic + (bool \<times> 'dr AppConnector)" where
  "isAddrKnownLocked domain a e =
     (if hasDomainAddrLocked e domain a then Inr (True, e)
      else isAddrKnownLoop (controlRoutes e) domain a e)"

subsection \<open>The scheduled tasks\<close>

definition scheduleAdvertisement :: "string \<Rightarrow> prefix list \<Rightarrow> 'dr AppConnector \<Rightarrow> 'dr AppConnector" where
  "scheduleAdvertisement domain routes e = e\<lparr>queue := queue e @ [AdvertisementTask domain routes]\<rparr>"

definition scheduleUndvertisement :: "string \<Rightarrow> prefix list \<Rightarrow> 'dr AppConnector \<Rightarrow> 'dr AppConnector" where
  "scheduleUndvertisement domain routes e = e\<lparr>queue := queue e @ [UnadvertisementTask domain routes]\<rparr>"

text \<open>The loops of the two closures, which run once the call to the advertiser succeeded.\<close>

fun advertisedLoop :: "string \<Rightarrow> prefix list \<Rightarrow> 'dr AppConnector \<Rightarrow> panic + 'dr AppConnector" where
  "advertisedLoop domain [] e = Inr e"
| "advertisedLoop domain (route # routes) e =
     (if \<not> IsSingleIP route then advertisedLoop domain routes e
      else if \<not> hasDomainAddrLocked e domain (prefixAddr route) then
        (case addDomainAddrLocked domain (prefixAddr route) e of
           Inl p \<Rightarrow> Inl p
         | Inr e1 \<Rightarrow> advertisedLoop domain routes e1)
      else advertisedLoop domain routes e)"

fun unadvertisedLoop :: "string \<Rightarrow> prefix list \<Rightarrow> 'dr AppConnector \<Rightarrow> panic + 'dr AppConnector" where
  "unadvertisedLoop domain [] e = Inr e"
| "unadvertisedLoop domain (route # routes) e =
     (if \<not> IsSingleIP route then unadvertisedLoop domain routes e
      else
        (case deleteDomainAddrLocked domain (prefixAddr route) e of
           Inl p \<Rightarrow> Inl p
         | Inr e1 \<Rightarrow> unadvertisedLoop domain routes e1))"

definition runAdvertisement :: "string \<Rightarrow> prefix list \<Rightarrow> 'dr AppConnector \<Rightarrow> panic + 'dr AppConnector" where
  "runAdvertisement domain routes e =
     (case AdvertiseRoute routes (routeAdvertiser e) of
        (err, ra) \<Rightarrow>
          if err then Inr (e\<lparr>routeAdvertiser := ra\<rparr>)
          else advertisedLoop domain routes (e\<lparr>routeAdvertiser := ra\<rparr>))"

definition runUnadvertisement :: "string \<Rightarrow> prefix list \<Rightarrow> 'dr AppConnector \<Rightarrow> panic + 'dr AppConnector" where
  "runUnadvertisement domain routes e =
     (case UnadvertiseRoute routes (routeAdvertiser e) of
        (err, ra) \<Rightarrow>
          if err then Inr (e\<lparr>routeAdvertiser := ra\<rparr>)
          else unadvertisedLoop domain routes (e\<lparr>routeAdvertiser := ra\<rparr>))"

subsection \<open>ObserveDNSResponse\<close>

text \<open>\<^verbatim>\<open>for _, addr := range addrs\<close>: the classification of the addresses of one routed
  domain.\<close>

fun classifyAddrs :: "string \<Rightarrow> addr list \<Rightarrow> prefix list \<Rightarrow> prefix list \<Rightarrow> 'dr AppConnector \<Rightarrow> panic + (prefix list \<times> prefix list \<times> 'dr AppConnector)" where
  "classifyAddrs domain [] toAdvertise toUpdateDate e = Inr (toAdvertise, toUpdateDate, e)"
| "classifyAddrs domain (a # as) toAdvertise toUpdateDate e =
     (case isAddrKnownLocked domain a e of
        Inl p \<Rightarrow> Inl p
      | Inr (known, e1) \<Rightarrow>
          if \<not> known then
            classifyAddrs domain as (toAdvertise @ [PrefixFrom a (BitLen a)]) toUpdateDate e1
          else
            classifyAddrs domain as toAdvertise (toUpdateDate @ [PrefixFrom a (BitLen a)]) e1)"

text \<open>What the loop over \<^verbatim>\<open>addressRecords\<close> does for a routed domain, from the
  classification to the two scheduled tasks.\<close>

definition observeRouted :: "'dr externs \<Rightarrow> string \<Rightarrow> addr list \<Rightarrow> 'dr AppConnector \<Rightarrow> panic + 'dr AppConnector" where
  "observeRouted X domain addrs e =
     (case classifyAddrs domain addrs [] [] e of
        Inl p \<Rightarrow> Inl p
      | Inr (toAdvertise, toUpdateDate, e1) \<Rightarrow>
          (let routesToUpdate = toAdvertise @ toUpdateDate;
               routeInfo = ReadRouteInfoFromStore (routeAdvertiser e1);
               routeInfo1 = UpdateRoutesInDiscoveredForDomain X domain routesToUpdate routeInfo
           in case OutDatedRoutesInDiscoveredForDomain X domain routeInfo1 of
                (outDated, routeInfo2) \<Rightarrow>
                  Inr (scheduleUndvertisement domain outDated
                        (scheduleAdvertisement domain toAdvertise
                          (e1\<lparr>routeAdvertiser :=
                                UpdateRoutesInfoToStore routeInfo2 (routeAdvertiser e1)\<rparr>)))))"

text \<open>One iteration, and the loop over the entries in the order the \<^verbatim>\<open>range\<close> visits
  them.\<close>

definition observeEntry :: "'dr externs \<Rightarrow> cnameChain \<Rightarrow> string \<times> addr list \<Rightarrow> 'dr AppConnector \<Rightarrow> (panic + 'dr AppConnector) option" where
  "observeEntry X cn entry e =
     (case findRoutedDomainLocked X (fst entry) cn e of
        None \<Rightarrow> None
      | Some (Inl p) \<Rightarrow> Some (Inl p)
      | Some (Inr (domain, isRouted, e1)) \<Rightarrow>
          if \<not> isRouted then Some (Inr e1) else Some (observeRouted X domain (snd entry) e1))"

fun observeRecords :: "'dr externs \<Rightarrow> cnameChain \<Rightarrow> addressRecords \<Rightarrow> 'dr AppConnector \<Rightarrow> (panic + 'dr AppConnector) option" where
  "observeRecords X cn [] e = Some (Inr e)"
| "observeRecords X cn (entry # entries) e =
     (case observeEntry X cn entry e of
        None \<Rightarrow> None
      | Some (Inl p) \<Rightarrow> Some (Inl p)
      | Some (Inr e1) \<Rightarrow> observeRecords X cn entries e1)"

text \<open>
  \<^verbatim>\<open>ObserveDNSResponse\<close>. The \<^verbatim>\<open>range\<close> over \<^verbatim>\<open>addressRecords\<close> visits the
  entries in an order Go does not specify: \<open>visit\<close> is the rearrangement. The result
  is \<open>None\<close> when the function does not return, \<open>Some (Inl p)\<close> when it panics and
  \<open>Some (Inr e')\<close> when it returns; it has no result value, so nothing else reaches
  the caller.
\<close>

definition ObserveDNSResponse ::
  "'dr externs \<Rightarrow> 'p Parser \<Rightarrow> (addressRecords \<Rightarrow> addressRecords) \<Rightarrow> 8 word list \<Rightarrow> 'dr AppConnector \<Rightarrow> (panic + 'dr AppConnector) option" where
  "ObserveDNSResponse X P visit res e =
     (case Start P res of
        None \<Rightarrow> Some (Inr e)
      | Some p0 \<Rightarrow>
          (case SkipAllQuestions P p0 of
             None \<Rightarrow> Some (Inr e)
           | Some p1 \<Rightarrow>
               (case answersLoop X P p1 Map.empty [] of
                  None \<Rightarrow> None
                | Some None \<Rightarrow> Some (Inr e)
                | Some (Some (cnameChain, addressRecords)) \<Rightarrow>
                    observeRecords X cnameChain (visit addressRecords) e)))"

subsection \<open>The public surface and the worker\<close>

definition UpdateDomainsAndRoutes :: "string list \<Rightarrow> prefix list \<Rightarrow> 'dr AppConnector \<Rightarrow> 'dr AppConnector" where
  "UpdateDomainsAndRoutes names routes e = e\<lparr>queue := queue e @ [UpdateDomainsAndRoutesTask names routes]\<rparr>"

definition UpdateDomains :: "string list \<Rightarrow> 'dr AppConnector \<Rightarrow> 'dr AppConnector" where
  "UpdateDomains names e = e\<lparr>queue := queue e @ [UpdateDomainsTask names]\<rparr>"

fun runTask :: "'dr externs \<Rightarrow> (nat \<Rightarrow> string list) \<Rightarrow> task \<Rightarrow> 'dr AppConnector \<Rightarrow> panic + 'dr AppConnector" where
  "runTask X ord (AdvertisementTask domain routes) e = runAdvertisement domain routes e"
| "runTask X ord (UnadvertisementTask domain routes) e = runUnadvertisement domain routes e"
| "runTask X ord (UpdateDomainsTask names) e = Inr (updateDomains X names e)"
| "runTask X ord (UpdateDomainsAndRoutesTask names routes) e =
     Inr (updateDomains X names (updateRoutes ord routes e))"

section \<open>Notions the properties are stated with\<close>

text \<open>A slice of addresses is sorted when \<^verbatim>\<open>compareAddr\<close> never puts a later element
  before an earlier one; \<open>sortedDomains\<close> says so of every address list of the
  connector.\<close>

definition sortedAddrs :: "addr list \<Rightarrow> bool" where
  "sortedAddrs as = sorted_wrt (\<lambda>x y. compareAddr x y \<le> 0) as"

definition sortedDomains :: "'dr AppConnector \<Rightarrow> bool" where
  "sortedDomains e = (\<forall>d. sortedAddrs (domainAddrs e d))"

text \<open>A sequence of insertions and removals on the address lists, run one after the
  other; a panic ends the run.\<close>

datatype addrOp = AddAddr string addr | DeleteAddr string addr

fun applyAddrOps :: "addrOp list \<Rightarrow> 'dr AppConnector \<Rightarrow> panic + 'dr AppConnector" where
  "applyAddrOps [] e = Inr e"
| "applyAddrOps (AddAddr domain a # ops) e =
     (case addDomainAddrLocked domain a e of Inl p \<Rightarrow> Inl p | Inr e1 \<Rightarrow> applyAddrOps ops e1)"
| "applyAddrOps (DeleteAddr domain a # ops) e =
     (case deleteDomainAddrLocked domain a e of Inl p \<Rightarrow> Inl p | Inr e1 \<Rightarrow> applyAddrOps ops e1)"


text \<open>Instances for the closed examples: an advertiser with an empty store whose calls all
  succeed, and a connector whose domain map is allocated and empty.\<close>

definition exampleAdvertiser :: "nat RouteAdvertiser" where
  "exampleAdvertiser =
     \<lparr>stored = \<lparr>Corp = [], Discovered = Map.empty\<rparr>, calls = [], failing = (\<lambda>h c. False)\<rparr>"

definition exampleConnector :: "nat AppConnector" where
  "exampleConnector = (NewAppConnector exampleAdvertiser)\<lparr>domains := Some Map.empty\<rparr>"

text \<open>
  How the loop of \<^verbatim>\<open>updateDomains\<close> reads the supplied list: after
  \<^verbatim>\<open>strings.ToLower\<close>, the non-empty names without the prefix \<^verbatim>\<open>*.\<close> are the
  exact domains, in order and with repetitions, and the others give the wildcard suffixes.
\<close>

definition exactNames :: "'dr externs \<Rightarrow> string list \<Rightarrow> string list" where
  "exactNames X names =
     filter (\<lambda>d. length d \<noteq> 0 \<and> \<not> HasPrefix d ''*.'') (map (ToLower X) names)"

definition wildcardNames :: "'dr externs \<Rightarrow> string list \<Rightarrow> string list" where
  "wildcardNames X names =
     map (drop 2) (filter (\<lambda>d. length d \<noteq> 0 \<and> HasPrefix d ''*.'') (map (ToLower X) names))"


text \<open>
  An instance of the imported functions for the closed examples: the names there are lower
  case already, a name has a suffix when it ends in a dot followed by the suffix, and the
  two methods of the route info leave it as it is and report nothing outdated.
\<close>

definition exampleExterns :: "nat externs" where
  "exampleExterns =
     \<lparr>ToLower = (\<lambda>s. s),
      HasSuffix = (\<lambda>name sfx. length sfx < length name \<and>
                     drop (length name - (length sfx + 1)) name = CHR ''.'' # sfx),
      UpdateRoutesInDiscoveredForDomain = (\<lambda>domain routes ri. ri),
      OutDatedRoutesInDiscoveredForDomain = (\<lambda>domain ri. ([], ri))\<rparr>"

text \<open>A connector that has discovered \<open>0.0.0.1\<close> for \<^verbatim>\<open>a.example.com\<close>, with the
  discovered-route record \<open>7\<close> in the store.\<close>

definition discoveredConnector :: "nat AppConnector" where
  "discoveredConnector =
     \<lparr>routeAdvertiser =
        \<lparr>stored = \<lparr>Corp = [], Discovered = [''a.example.com'' \<mapsto> Some 7]\<rparr>,
         calls = [], failing = (\<lambda>h c. False)\<rparr>,
      domains = Some [''a.example.com'' \<mapsto> [Addr4 1]],
      controlRoutes = [], wildcards = [], queue = []\<rparr>"

text \<open>
  The subsumption scan of \<^verbatim>\<open>updateRoutes\<close> in the words of the specification: for
  each new prefix, the single-address prefix of the first address, among the address lists
  in the order they are visited, that the prefix contains and whose single-address prefix is
  not the prefix itself; nothing for a prefix without such an address.
\<close>

definition firstSubsumed :: "prefix \<Rightarrow> addr list \<Rightarrow> prefix list" where
  "firstSubsumed r as =
     (case find (\<lambda>a. Contains r a \<and> singlePrefix a \<noteq> r) as of
        None \<Rightarrow> []
      | Some a \<Rightarrow> [singlePrefix a])"

definition subsumedRoutes :: "(nat \<Rightarrow> string list) \<Rightarrow> prefix list \<Rightarrow> 'dr AppConnector \<Rightarrow> prefix list" where
  "subsumedRoutes ord routes e =
     concat (map (\<lambda>(i, r). firstSubsumed r (concat (rangeDomains e (ord i)))) (enumerate 0 routes))"


text \<open>The trace of calls at the moment \<^verbatim>\<open>updateRoutes\<close> calls
  \<^verbatim>\<open>AdvertiseRoute\<close>: the stale operator prefixes have been unadvertised.\<close>

definition unadvertisedStale :: "prefix list \<Rightarrow> 'dr AppConnector \<Rightarrow> 'dr call list" where
  "unadvertisedStale routes e =
     calls (routeAdvertiser e) @
       [UnadvertiseRouteCall (staleRoutes (Corp (stored (routeAdvertiser e))) routes [])]"


text \<open>A connector that has discovered \<open>10.0.0.1\<close> and \<open>10.0.0.2\<close> for
  \<^verbatim>\<open>a.example.com\<close>, and the same connector with an advertiser whose
  \<^verbatim>\<open>AdvertiseRoute\<close> always fails.\<close>

definition twoAddrConnector :: "nat AppConnector" where
  "twoAddrConnector =
     \<lparr>routeAdvertiser =
        \<lparr>stored = \<lparr>Corp = [], Discovered = Map.empty\<rparr>, calls = [], failing = (\<lambda>h c. False)\<rparr>,
      domains = Some [''a.example.com'' \<mapsto> [Addr4 0x0A000001, Addr4 0x0A000002]],
      controlRoutes = [], wildcards = [], queue = []\<rparr>"


definition refusedConnector :: "nat AppConnector" where
  "refusedConnector =
     twoAddrConnector\<lparr>routeAdvertiser := (routeAdvertiser twoAddrConnector)
       \<lparr>failing := (\<lambda>h c. case c of AdvertiseRouteCall ps \<Rightarrow> True | _ \<Rightarrow> False)\<rparr>\<rparr>"

text \<open>
  A parser for the closed examples. Its state is the list of the answers still to read, each
  a header with its resource data; a message shorter than the twelve bytes of a DNS header
  does not start. As in \<^verbatim>\<open>dnsmessage\<close>, \<^verbatim>\<open>AnswerHeader\<close> does not move past the
  answer: the resource parsers and \<^verbatim>\<open>SkipAnswer\<close> do.
\<close>

datatype rdata = RData_A "32 word" | RData_AAAA "128 word" | RData_CNAME string | RData_Malformed

type_synonym answers = "(ResourceHeader \<times> rdata) list"

definition listParser :: "answers \<Rightarrow> answers Parser" where
  "listParser msg =
     \<lparr>Start = (\<lambda>res. if length res < 12 then None else Some msg),
      SkipAllQuestions = (\<lambda>p. Some p),
      AnswerHeader = (\<lambda>p. case p of [] \<Rightarrow> ErrSectionDone | (h, body) # rest \<Rightarrow> Header h p),
      SkipAnswer = (\<lambda>p. case p of [] \<Rightarrow> None | (h, body) # rest \<Rightarrow> Some rest),
      CNAMEResource = (\<lambda>p. case p of (h, RData_CNAME c) # rest \<Rightarrow> Some (c, rest) | _ \<Rightarrow> None),
      AResource = (\<lambda>p. case p of (h, RData_A a) # rest \<Rightarrow> Some (a, rest) | _ \<Rightarrow> None),
      AAAAResource = (\<lambda>p. case p of (h, RData_AAAA a) # rest \<Rightarrow> Some (a, rest) | _ \<Rightarrow> None)\<rparr>"

text \<open>An answer section whose second record cannot be read, after a well-formed address
  record for \<^verbatim>\<open>a.example.com\<close>.\<close>

definition truncatedMessage :: answers where
  "truncatedMessage =
     [(\<lparr>hName = ''a.example.com.'', hType = TypeA, hClass = ClassINET\<rparr>, RData_A 0x0A000003),
      (\<lparr>hName = ''a.example.com.'', hType = TypeA, hClass = ClassINET\<rparr>, RData_Malformed)]"

text \<open>An answer section with one address record whose owner name is the root and whose
  resource data cannot be read.\<close>

definition rootMessage :: answers where
  "rootMessage = [(\<lparr>hName = ''.'', hType = TypeA, hClass = ClassINET\<rparr>, RData_Malformed)]"

text \<open>
  The two tests at the head of the loop over the answers, which skip a resource of another
  class or of a type other than CNAME, A and AAAA, and the owner name as the loop reads it,
  \<^verbatim>\<open>strings.TrimSuffix(strings.ToLower(h.Name.String()), ".")\<close>.
\<close>

definition skipped :: "ResourceHeader \<Rightarrow> bool" where
  "skipped h = (hClass h \<noteq> ClassINET \<or>
                (hType h \<noteq> TypeCNAME \<and> hType h \<noteq> TypeA \<and> hType h \<noteq> TypeAAAA))"

definition ownerName :: "'dr externs \<Rightarrow> ResourceHeader \<Rightarrow> string" where
  "ownerName X h = TrimSuffix (ToLower X (hName h)) ''.''"

text \<open>
  A method of the parser returns an error to the loop over the answers that starts at the
  parser \<open>p\<close>. The rules follow the calls the loop makes: an error of
  \<^verbatim>\<open>AnswerHeader\<close>, of \<^verbatim>\<open>SkipAnswer\<close> or of the resource parser for the
  type of the header, at this answer or, when this one is read or skipped, at a later one.
\<close>

inductive parserError :: "'dr externs \<Rightarrow> 'p Parser \<Rightarrow> 'p \<Rightarrow> bool"
  for X :: "'dr externs" and P :: "'p Parser" where
  headerError: "AnswerHeader P p = HeaderError \<Longrightarrow> parserError X P p"
| skipError:
    "AnswerHeader P p = Header h p1 \<Longrightarrow> skipped h \<Longrightarrow> SkipAnswer P p1 = None \<Longrightarrow> parserError X P p"
| skipNext:
    "AnswerHeader P p = Header h p1 \<Longrightarrow> skipped h \<Longrightarrow> SkipAnswer P p1 = Some p2 \<Longrightarrow>
     parserError X P p2 \<Longrightarrow> parserError X P p"
| emptyName:
    "AnswerHeader P p = Header h p1 \<Longrightarrow> \<not> skipped h \<Longrightarrow> ownerName X h = [] \<Longrightarrow>
     parserError X P p1 \<Longrightarrow> parserError X P p"
| cnameError:
    "AnswerHeader P p = Header h p1 \<Longrightarrow> \<not> skipped h \<Longrightarrow> ownerName X h \<noteq> [] \<Longrightarrow>
     hType h = TypeCNAME \<Longrightarrow> CNAMEResource P p1 = None \<Longrightarrow> parserError X P p"
| cnameNext:
    "AnswerHeader P p = Header h p1 \<Longrightarrow> \<not> skipped h \<Longrightarrow> ownerName X h \<noteq> [] \<Longrightarrow>
     hType h = TypeCNAME \<Longrightarrow> CNAMEResource P p1 = Some (r, p2) \<Longrightarrow>
     parserError X P p2 \<Longrightarrow> parserError X P p"
| addressError:
    "AnswerHeader P p = Header h p1 \<Longrightarrow> \<not> skipped h \<Longrightarrow> ownerName X h \<noteq> [] \<Longrightarrow>
     hType h = TypeA \<Longrightarrow> AResource P p1 = None \<Longrightarrow> parserError X P p"
| addressNext:
    "AnswerHeader P p = Header h p1 \<Longrightarrow> \<not> skipped h \<Longrightarrow> ownerName X h \<noteq> [] \<Longrightarrow>
     hType h = TypeA \<Longrightarrow> AResource P p1 = Some (a, p2) \<Longrightarrow>
     parserError X P p2 \<Longrightarrow> parserError X P p"
| address6Error:
    "AnswerHeader P p = Header h p1 \<Longrightarrow> \<not> skipped h \<Longrightarrow> ownerName X h \<noteq> [] \<Longrightarrow>
     hType h = TypeAAAA \<Longrightarrow> AAAAResource P p1 = None \<Longrightarrow> parserError X P p"
| address6Next:
    "AnswerHeader P p = Header h p1 \<Longrightarrow> \<not> skipped h \<Longrightarrow> ownerName X h \<noteq> [] \<Longrightarrow>
     hType h = TypeAAAA \<Longrightarrow> AAAAResource P p1 = Some (b, p2) \<Longrightarrow>
     parserError X P p2 \<Longrightarrow> parserError X P p"

text \<open>A connector configured with the wildcard \<^verbatim>\<open>*.example.com\<close> only.\<close>

definition wildcardConnector :: "nat AppConnector" where
  "wildcardConnector =
     \<lparr>routeAdvertiser =
        \<lparr>stored = \<lparr>Corp = [], Discovered = Map.empty\<rparr>, calls = [], failing = (\<lambda>h c. False)\<rparr>,
      domains = Some Map.empty,
      controlRoutes = [], wildcards = [''example.com''], queue = []\<rparr>"

text \<open>
  An address is covered by control when a control route contains it: the loop of
  \<^verbatim>\<open>isAddrKnownLocked\<close> over \<^verbatim>\<open>e.controlRoutes\<close> then finds a route.
\<close>

definition coveredByControl :: "'dr AppConnector \<Rightarrow> addr \<Rightarrow> bool" where
  "coveredByControl e a = list_ex (\<lambda>route. Contains route a) (controlRoutes e)"

text \<open>
  The addresses of a response for the routed domain \<open>d\<close> that the connector does
  not know (neither on the list of \<open>d\<close> nor covered by control), and the others, each
  in the order of the response.
\<close>

definition newAddrs :: "'dr AppConnector \<Rightarrow> string \<Rightarrow> addr list \<Rightarrow> addr list" where
  "newAddrs e d addrs = filter (\<lambda>a. a \<notin> set (domainAddrs e d) \<and> \<not> coveredByControl e a) addrs"

definition knownAddrs :: "'dr AppConnector \<Rightarrow> string \<Rightarrow> addr list \<Rightarrow> addr list" where
  "knownAddrs e d addrs = filter (\<lambda>a. a \<in> set (domainAddrs e d) \<or> coveredByControl e a) addrs"

text \<open>
  What \<^verbatim>\<open>findRoutedDomainLocked\<close> may change: it can only create entries with a nil
  list, so every list reads as before, no entry disappears, and a name it reports as routed
  has an entry.
\<close>

definition frameOK :: "'dr AppConnector \<Rightarrow> string \<Rightarrow> bool \<Rightarrow> 'dr AppConnector \<Rightarrow> bool" where
  "frameOK e d r e1 =
    (routeAdvertiser e1 = routeAdvertiser e \<and> controlRoutes e1 = controlRoutes e \<and>
     wildcards e1 = wildcards e \<and> queue e1 = queue e \<and>
     (\<forall>x. domainAddrs e1 x = domainAddrs e x) \<and>
     (\<forall>x. lookupDomain e x \<noteq> None \<longrightarrow> lookupDomain e1 x \<noteq> None) \<and>
     (r \<longrightarrow> lookupDomain e1 d \<noteq> None))"

text \<open>A connector that knows \<open>10.0.0.1\<close> for \<^verbatim>\<open>a.example.com\<close> and has the control
  route \<open>10.0.0.0/24\<close>.\<close>

definition coveredConnector :: "nat AppConnector" where
  "coveredConnector =
     \<lparr>routeAdvertiser =
        \<lparr>stored = \<lparr>Corp = [], Discovered = Map.empty\<rparr>, calls = [], failing = (\<lambda>h c. False)\<rparr>,
      domains = Some [''a.example.com'' \<mapsto> [Addr4 0x0A000001]],
      controlRoutes = [PrefixFrom (Addr4 0x0A000000) 24], wildcards = [], queue = []\<rparr>"

text \<open>The answers \<^verbatim>\<open>other.net. CNAME a.example.com.\<close> and
  \<^verbatim>\<open>a.example.com. A 203.0.113.5\<close>.\<close>

definition aliasMessage :: answers where
  "aliasMessage =
     [(\<lparr>hName = ''other.net.'', hType = TypeCNAME, hClass = ClassINET\<rparr>, RData_CNAME ''a.example.com.''),
      (\<lparr>hName = ''a.example.com.'', hType = TypeA, hClass = ClassINET\<rparr>, RData_A 0xCB007105)]"

text \<open>
  The lists of every domain are sorted and without repetition.
\<close>

definition strictDomains :: "'dr AppConnector \<Rightarrow> bool" where
  "strictDomains e = (\<forall>d. sortedAddrs (domainAddrs e d) \<and> distinct (domainAddrs e d))"

text \<open>
  The states a connector reaches: it is created by \<^verbatim>\<open>NewAppConnector\<close>; a caller
  enqueues a configuration update; \<^verbatim>\<open>ObserveDNSResponse\<close> returns, for any message
  and any order of the visit; the worker of the queue runs the task at its head, for any
  order of the scan of \<^verbatim>\<open>updateRoutes\<close>. A step that panics or does not return has
  no successor. A queued closure is one step: its call to the advertiser comes before it
  takes the lock and changes the advertiser only, and what it does under the lock is not
  interleaved with anything.
\<close>

inductive reachable :: "'dr externs \<Rightarrow> 'p Parser \<Rightarrow> 'dr AppConnector \<Rightarrow> bool" for X :: "'dr externs" and P :: "'p Parser" where
  created: "reachable X P (NewAppConnector ra)"
| updateDomainsCalled: "reachable X P e \<Longrightarrow> reachable X P (UpdateDomains names e)"
| updateDomainsAndRoutesCalled:
    "reachable X P e \<Longrightarrow> reachable X P (UpdateDomainsAndRoutes names routes e)"
| observed:
    "reachable X P e \<Longrightarrow> ObserveDNSResponse X P visit res e = Some (Inr e') \<Longrightarrow> reachable X P e'"
| taskRun:
    "reachable X P e \<Longrightarrow> queue e = t # ts \<Longrightarrow> runTask X ord t (e\<lparr>queue := ts\<rparr>) = Inr e' \<Longrightarrow>
     reachable X P e'"

text \<open>
  The connector of \<open>exampleAdvertiser\<close> along one run: after the update to the domain
  \<^verbatim>\<open>a.example.com\<close>, after it observed \<open>aliasMessage\<close>, and after the worker ran
  the advertisement that the observation scheduled.
\<close>

definition configuredInfo :: "nat RouteInfo" where
  "configuredInfo = \<lparr>Corp = [], Discovered = [''a.example.com'' \<mapsto> None]\<rparr>"

definition configuredConnector :: "nat AppConnector" where
  "configuredConnector =
     \<lparr>routeAdvertiser =
        \<lparr>stored = configuredInfo, calls = [UpdateRoutesInfoToStoreCall configuredInfo],
         failing = (\<lambda>h c. False)\<rparr>,
      domains = Some [''a.example.com'' \<mapsto> []],
      controlRoutes = [], wildcards = [], queue = []\<rparr>"

definition pendingConnector :: "nat AppConnector" where
  "pendingConnector =
     \<lparr>routeAdvertiser =
        \<lparr>stored = configuredInfo,
         calls = [UpdateRoutesInfoToStoreCall configuredInfo, UpdateRoutesInfoToStoreCall configuredInfo],
         failing = (\<lambda>h c. False)\<rparr>,
      domains = Some [''a.example.com'' \<mapsto> []],
      controlRoutes = [], wildcards = [],
      queue = [AdvertisementTask ''a.example.com'' [PrefixFrom (Addr4 0xCB007105) 32],
               UnadvertisementTask ''a.example.com'' []]\<rparr>"

definition learnedConnector :: "nat AppConnector" where
  "learnedConnector =
     \<lparr>routeAdvertiser =
        \<lparr>stored = configuredInfo,
         calls = [UpdateRoutesInfoToStoreCall configuredInfo, UpdateRoutesInfoToStoreCall configuredInfo,
                  AdvertiseRouteCall [PrefixFrom (Addr4 0xCB007105) 32]],
         failing = (\<lambda>h c. False)\<rparr>,
      domains = Some [''a.example.com'' \<mapsto> [Addr4 0xCB007105]],
      controlRoutes = [], wildcards = [],
      queue = [UnadvertisementTask ''a.example.com'' []]\<rparr>"

section \<open>Properties\<close>

declare bsearchLoop.simps [simp del]

subsection \<open>The order of addresses and the sorted slices\<close>

lemma addr_key_inj: "BitLen a = BitLen b \<Longrightarrow> addrValue a = addrValue b \<Longrightarrow> a = b"
  by (cases a; cases b) (auto simp: word_unat_eq_iff)

lemma compareAddr_eq0: "compareAddr a b = 0 \<longleftrightarrow> a = b"
  using addr_key_inj [of a b] by (auto simp: compareAddr_def Compare_def)

lemma compareAddr_le_trans: "compareAddr a b \<le> 0 \<Longrightarrow> compareAddr b c \<le> 0 \<Longrightarrow> compareAddr a c \<le> 0"
  by (auto simp: compareAddr_def Compare_def split: if_splits)

lemma compareAddr_lt_le_trans: "compareAddr a b < 0 \<Longrightarrow> compareAddr b c \<le> 0 \<Longrightarrow> compareAddr a c < 0"
  by (auto simp: compareAddr_def Compare_def split: if_splits)

lemma compareAddr_le_lt_trans: "compareAddr a b \<le> 0 \<Longrightarrow> compareAddr b c < 0 \<Longrightarrow> compareAddr a c < 0"
  by (auto simp: compareAddr_def Compare_def split: if_splits)

lemma compareAddr_total: "compareAddr a b \<le> 0 \<or> compareAddr b a \<le> 0"
  by (auto simp: compareAddr_def Compare_def)

lemma compareAddr_not_le: "\<not> compareAddr a b \<le> 0 \<Longrightarrow> compareAddr b a < 0"
  by (auto simp: compareAddr_def Compare_def split: if_splits)

lemma compareAddr_not_lt: "\<not> compareAddr a b < 0 \<Longrightarrow> compareAddr b a \<le> 0"
  by (auto simp: compareAddr_def Compare_def split: if_splits)

lemma set_insertFunc: "set (insertFunc cmp a bs) = insert a (set bs)"
  by (induction bs) auto

lemma set_SortFunc: "set (SortFunc as cmp) = set as"
  by (induction as) (auto simp: set_insertFunc)

lemma sorted_insertFunc: "sortedAddrs bs \<Longrightarrow> sortedAddrs (insertFunc compareAddr a bs)"
  unfolding sortedAddrs_def
proof (induction bs)
  case Nil then show ?case by simp
next
  case (Cons b bs)
  show ?case
  proof (cases "compareAddr a b \<le> 0")
    case True
    with Cons.prems show ?thesis by (auto intro: compareAddr_le_trans)
  next
    case False
    then have "compareAddr b a \<le> 0" using compareAddr_total by blast
    with False Cons show ?thesis by (auto simp: set_insertFunc)
  qed
qed

lemma sorted_SortFunc: "sortedAddrs (SortFunc as compareAddr)"
proof (induction as)
  case Nil show ?case by (simp add: sortedAddrs_def)
next
  case (Cons a as) then show ?case by (simp add: sorted_insertFunc)
qed

lemma bsearchLoop_bounds:
  "i \<le> j \<Longrightarrow> i \<le> bsearchLoop cmp x t i j \<and> bsearchLoop cmp x t i j \<le> j"
proof (induction cmp x t i j rule: bsearchLoop.induct)
  case (1 cmp x t i j)
  show ?case
  proof (cases "i < j")
    case False
    then have "bsearchLoop cmp x t i j = i" by (subst bsearchLoop.simps) simp
    with "1.prems" show ?thesis by simp
  next
    case True
    define h where "h = (i + j) div 2"
    have hb: "i \<le> h" "h < j" using True by (auto simp: h_def)
    show ?thesis
    proof (cases "cmp (x ! h) t < 0")
      case lt: True
      have "h + 1 \<le> bsearchLoop cmp x t (h + 1) j \<and> bsearchLoop cmp x t (h + 1) j \<le> j"
        using "1.IH"(1) [OF True h_def lt] hb by simp
      then show ?thesis using True lt hb
        by (simp add: bsearchLoop.simps [of cmp x t i j] h_def [symmetric] Let_def del: bsearchLoop.simps)
    next
      case ge: False
      have "i \<le> bsearchLoop cmp x t i h \<and> bsearchLoop cmp x t i h \<le> h"
        using "1.IH"(2) [OF True h_def ge] hb by simp
      then show ?thesis using True ge hb
        by (simp add: bsearchLoop.simps [of cmp x t i j] h_def [symmetric] Let_def del: bsearchLoop.simps)
    qed
  qed
qed


lemma compareAddr_refl: "compareAddr a a \<le> 0"
  by (simp add: compareAddr_def Compare_def)

lemma sortedAddrs_nth:
  "sortedAddrs x \<Longrightarrow> k \<le> l \<Longrightarrow> l < length x \<Longrightarrow> compareAddr (x ! k) (x ! l) \<le> 0"
  unfolding sortedAddrs_def
  by (cases "k = l") (auto simp: compareAddr_refl sorted_wrt_iff_nth_less)

lemma bsearchLoop_inv:
  assumes "sortedAddrs x" "i \<le> j" "j \<le> length x"
    and "\<forall>k<i. compareAddr (x ! k) t < 0"
    and "\<forall>k. j \<le> k \<and> k < length x \<longrightarrow> \<not> compareAddr (x ! k) t < 0"
  shows "(\<forall>k<bsearchLoop compareAddr x t i j. compareAddr (x ! k) t < 0) \<and>
         (\<forall>k. bsearchLoop compareAddr x t i j \<le> k \<and> k < length x \<longrightarrow> \<not> compareAddr (x ! k) t < 0)"
  using assms
proof (induction compareAddr x t i j rule: bsearchLoop.induct)
  case (1 x t i j)
  show ?case
  proof (cases "i < j")
    case False
    with "1.prems" have "i = j" by simp
    with "1.prems" show ?thesis by (simp add: bsearchLoop.simps [of compareAddr x t j j])
  next
    case True
    define h where "h = (i + j) div 2"
    have hb: "i \<le> h" "h < j" using True by (auto simp: h_def)
    show ?thesis
    proof (cases "compareAddr (x ! h) t < 0")
      case lt: True
      have low: "\<forall>k<h + 1. compareAddr (x ! k) t < 0"
      proof (intro allI impI)
        fix k assume "k < h + 1"
        then have "compareAddr (x ! k) (x ! h) \<le> 0"
          using sortedAddrs_nth [OF "1.prems"(1), of k h] hb "1.prems"(3) by simp
        then show "compareAddr (x ! k) t < 0" using lt by (rule compareAddr_le_lt_trans)
      qed
      have eq: "bsearchLoop compareAddr x t i j = bsearchLoop compareAddr x t (h + 1) j"
        using True lt by (simp add: bsearchLoop.simps [of compareAddr x t i j] h_def [symmetric] Let_def del: bsearchLoop.simps)
      show ?thesis unfolding eq
        using "1.hyps"(1) [OF True h_def lt "1.prems"(1) _ "1.prems"(3) low "1.prems"(5)] hb by simp
    next
      case ge: False
      have high: "\<forall>k. h \<le> k \<and> k < length x \<longrightarrow> \<not> compareAddr (x ! k) t < 0"
      proof (intro allI impI notI)
        fix k assume k: "h \<le> k \<and> k < length x" and c: "compareAddr (x ! k) t < 0"
        have "compareAddr (x ! h) (x ! k) \<le> 0"
          using sortedAddrs_nth [OF "1.prems"(1), of h k] k by simp
        then have "compareAddr (x ! h) t < 0" using c by (rule compareAddr_le_lt_trans)
        with ge show False by simp
      qed
      have eq: "bsearchLoop compareAddr x t i j = bsearchLoop compareAddr x t i h"
        using True ge by (simp add: bsearchLoop.simps [of compareAddr x t i j] h_def [symmetric] Let_def del: bsearchLoop.simps)
      show ?thesis unfolding eq
        using "1.hyps"(2) [OF True h_def ge "1.prems"(1) _ _ "1.prems"(4) high] hb "1.prems"(3) by simp
    qed
  qed
qed

lemma BinarySearchFunc_found:
  assumes "sortedAddrs x"
  shows "snd (BinarySearchFunc x t compareAddr) = (t \<in> set x)"
proof -
  define r where "r = bsearchLoop compareAddr x t 0 (length x)"
  have inv: "(\<forall>k<r. compareAddr (x ! k) t < 0) \<and>
         (\<forall>k. r \<le> k \<and> k < length x \<longrightarrow> \<not> compareAddr (x ! k) t < 0)"
    unfolding r_def by (rule bsearchLoop_inv [OF assms]) auto
  have rb: "r \<le> length x" unfolding r_def using bsearchLoop_bounds [of 0 "length x"] by simp
  have found: "snd (BinarySearchFunc x t compareAddr) = (r < length x \<and> compareAddr (x ! r) t = 0)"
    by (simp add: BinarySearchFunc_def Let_def r_def)
  show ?thesis
  proof
    assume "snd (BinarySearchFunc x t compareAddr)"
    then have "r < length x" "x ! r = t" using found by (auto simp: compareAddr_eq0)
    then show "t \<in> set x" by auto
  next
    assume "t \<in> set x"
    then obtain k where k: "k < length x" "x ! k = t" by (auto simp: in_set_conv_nth)
    have "\<not> compareAddr (x ! k) t < 0" using k by (simp add: iffD2 [OF compareAddr_eq0])
    then have rk: "r \<le> k" using inv by (meson not_le)
    then have rl: "r < length x" using k by simp
    have "compareAddr (x ! r) t \<le> 0" using sortedAddrs_nth [OF assms rk k(1)] k by simp
    moreover have "\<not> compareAddr (x ! r) t < 0" using inv rl by simp
    ultimately have "compareAddr (x ! r) t = 0" by simp
    with rl show "snd (BinarySearchFunc x t compareAddr)" using found by simp
  qed
qed

lemma BinarySearchFunc_index:
  assumes "sortedAddrs x" "BinarySearchFunc x t compareAddr = (ind, True)"
  shows "ind < length x \<and> x ! ind = t"
  using assms(2) by (auto simp: BinarySearchFunc_def Let_def compareAddr_eq0)


lemma domainAddrs_setDomain:
  "setDomain d as e = Inr e1 \<Longrightarrow> domainAddrs e1 d' = (if d' = d then as else domainAddrs e d')"
  by (auto simp: setDomain_def domainAddrs_def lookupDomain_def split: option.splits)

lemma lookupDomain_setDomain:
  "setDomain d as e = Inr e1 \<Longrightarrow> lookupDomain e1 d' = (if d' = d then Some as else lookupDomain e d')"
  by (auto simp: setDomain_def lookupDomain_def split: option.splits)

lemma domainAddrs_sortDomain:
  "domainAddrs (sortDomain d e) d' =
     (if d' = d then SortFunc (domainAddrs e d) compareAddr else domainAddrs e d')"
  by (auto simp: sortDomain_def domainAddrs_def lookupDomain_def split: option.splits)

lemma domainAddrs_add:
  "addDomainAddrLocked d a e = Inr e' \<Longrightarrow>
   domainAddrs e' d' = (if d' = d then SortFunc (domainAddrs e d @ [a]) compareAddr else domainAddrs e d')"
  by (auto simp: addDomainAddrLocked_def domainAddrs_sortDomain domainAddrs_setDomain split: sum.splits)

lemma domainAddrs_delete:
  "deleteDomainAddrLocked d a e = Inr e' \<Longrightarrow>
   domainAddrs e' d' =
     (if d' = d \<and> snd (BinarySearchFunc (domainAddrs e d) a compareAddr)
      then SortFunc (Delete (domainAddrs e d) (fst (BinarySearchFunc (domainAddrs e d) a compareAddr))
                      (fst (BinarySearchFunc (domainAddrs e d) a compareAddr) + 1)) compareAddr
      else domainAddrs e d')"
  by (auto simp: deleteDomainAddrLocked_def domainAddrs_sortDomain domainAddrs_setDomain
           split: sum.splits prod.splits if_splits)

lemma sortedDomains_add:
  "addDomainAddrLocked d a e = Inr e' \<Longrightarrow> sortedDomains e \<Longrightarrow> sortedDomains e'"
  by (simp add: sortedDomains_def domainAddrs_add sorted_SortFunc)

lemma sortedDomains_delete:
  "deleteDomainAddrLocked d a e = Inr e' \<Longrightarrow> sortedDomains e \<Longrightarrow> sortedDomains e'"
  by (simp add: sortedDomains_def domainAddrs_delete sorted_SortFunc)

lemma sortedDomains_applyAddrOps:
  "applyAddrOps ops e = Inr e' \<Longrightarrow> sortedDomains e \<Longrightarrow> sortedDomains e'"
proof (induction ops arbitrary: e)
  case Nil then show ?case by simp
next
  case (Cons op ops)
  show ?case
  proof (cases op)
    case (AddAddr d a)
    with Cons.prems obtain e1 where "addDomainAddrLocked d a e = Inr e1" "applyAddrOps ops e1 = Inr e'"
      by (auto split: sum.splits)
    with Cons show ?thesis by (blast intro: sortedDomains_add)
  next
    case (DeleteAddr d a)
    with Cons.prems obtain e1 where "deleteDomainAddrLocked d a e = Inr e1" "applyAddrOps ops e1 = Inr e'"
      by (auto split: sum.splits)
    with Cons show ?thesis by (blast intro: sortedDomains_delete)
  qed
qed

lemma hasDomainAddrLocked_iff:
  "sortedDomains e \<Longrightarrow> hasDomainAddrLocked e d a = (a \<in> set (domainAddrs e d))"
  by (simp add: hasDomainAddrLocked_def sortedDomains_def BinarySearchFunc_found)


text \<open>
  C7. From a connector whose address lists are all sorted, every run of insertions
  (\<^verbatim>\<open>addDomainAddrLocked\<close>) and removals (\<^verbatim>\<open>deleteDomainAddrLocked\<close>) that does
  not panic ends in a connector whose address lists are all sorted, and there the binary
  search of \<^verbatim>\<open>hasDomainAddrLocked\<close> answers, for every domain and address, what a
  linear scan of the list answers: whether the address is an element of the list.
\<close>

theorem address_lists_stay_sorted:
  assumes "sortedDomains e" and "applyAddrOps ops e = Inr e'"
  shows "sortedDomains e' \<and> (\<forall>d a. hasDomainAddrLocked e' d a = (a \<in> set (domainAddrs e' d)))"
  using assms by (auto simp: hasDomainAddrLocked_iff dest: sortedDomains_applyAddrOps)

theorem address_lists_stay_sorted_witness:
  "sortedDomains exampleConnector \<and>
   applyAddrOps [AddAddr ''a.example'' (Addr4 2), AddAddr ''a.example'' (Addr4 1),
                 AddAddr ''a.example'' (Addr4 3), DeleteAddr ''a.example'' (Addr4 2)]
     exampleConnector
     = Inr (exampleConnector\<lparr>domains := Some [''a.example'' \<mapsto> [Addr4 1, Addr4 3]]\<rparr>) \<and>
   sortedDomains (exampleConnector\<lparr>domains := Some [''a.example'' \<mapsto> [Addr4 1, Addr4 3]]\<rparr>) \<and>
   (\<forall>d a. hasDomainAddrLocked
             (exampleConnector\<lparr>domains := Some [''a.example'' \<mapsto> [Addr4 1, Addr4 3]]\<rparr>) d a
           = (a \<in> set (domainAddrs
                (exampleConnector\<lparr>domains := Some [''a.example'' \<mapsto> [Addr4 1, Addr4 3]]\<rparr>) d)))"
proof -
  have h1: "sortedDomains exampleConnector"
    by (simp add: sortedDomains_def sortedAddrs_def exampleConnector_def NewAppConnector_def
        domainAddrs_def lookupDomain_def)
  have h2: "applyAddrOps [AddAddr ''a.example'' (Addr4 2), AddAddr ''a.example'' (Addr4 1),
                 AddAddr ''a.example'' (Addr4 3), DeleteAddr ''a.example'' (Addr4 2)]
     exampleConnector
     = Inr (exampleConnector\<lparr>domains := Some [''a.example'' \<mapsto> [Addr4 1, Addr4 3]]\<rparr>)"
    by (simp add: addDomainAddrLocked_def deleteDomainAddrLocked_def setDomain_def sortDomain_def
        exampleConnector_def NewAppConnector_def domainAddrs_def lookupDomain_def compareAddr_def
        Compare_def BinarySearchFunc_def bsearchLoop.simps Delete_def)
  from address_lists_stay_sorted [OF h1 h2] h1 h2 show ?thesis by simp
qed

subsection \<open>updateDomains\<close>

lemma matchesWildcard_iff: "matchesWildcard X d wcs = (\<exists>wc\<in>set wcs. HasSuffix X d wc)"
  by (induction wcs) auto

lemma loop_newWildcards:
  "newWildcards (updateDomainsLoop X names v) = newWildcards v @ wildcardNames X names"
  by (induction names arbitrary: v) (auto simp: wildcardNames_def Let_def)

lemma loop_oldDomains:
  "oldDomains (updateDomainsLoop X names v) d =
     (if d \<in> set (exactNames X names) then None else oldDomains v d)"
  by (induction names arbitrary: v) (auto simp: exactNames_def Let_def)

lemma loop_oldDiscovered:
  "oldDiscovered (updateDomainsLoop X names v) d =
     (if d \<in> set (exactNames X names) then None else oldDiscovered v d)"
  by (induction names arbitrary: v) (auto simp: exactNames_def Let_def)

lemma loop_newDomains:
  "newDomains (updateDomainsLoop X names v) d =
     (if count_list (exactNames X names) d = 0 then newDomains v d
      else if count_list (exactNames X names) d = 1
      then Some (case oldDomains v d of None \<Rightarrow> [] | Some as \<Rightarrow> as)
      else Some [])"
  by (induction names arbitrary: v) (auto simp: exactNames_def Let_def)

lemma loop_newDiscovered:
  "newDiscovered (updateDomainsLoop X names v) d =
     (if count_list (exactNames X names) d = 0 then newDiscovered v d
      else if count_list (exactNames X names) d = 1
      then Some (case oldDiscovered v d of None \<Rightarrow> None | Some dr \<Rightarrow> dr)
      else Some None)"
  by (induction names arbitrary: v) (auto simp: exactNames_def Let_def)

lemma in_set_count_list: "(x \<in> set xs) = (count_list xs x \<noteq> 0)"
  by (simp add: count_list_0_iff)

lemma lookupDomain_updateDomains:
  "lookupDomain (updateDomains X names e) d =
     (if d \<in> set (exactNames X names) then
        (if count_list (exactNames X names) d = 1 then Some (domainAddrs e d) else Some [])
      else if matchesWildcard X d (wildcardNames X names) then lookupDomain e d else None)"
  by (auto simp: updateDomains_def Let_def lookupDomain_def domainAddrs_def carryForward_def
      loop_newWildcards loop_oldDomains loop_newDomains in_set_count_list split: option.splits)

lemma Discovered_updateDomains:
  "Discovered (stored (routeAdvertiser (updateDomains X names e))) d =
     (if d \<in> set (exactNames X names) then
        (if count_list (exactNames X names) d = 1
         then Some (case Discovered (stored (routeAdvertiser e)) d of None \<Rightarrow> None | Some dr \<Rightarrow> dr)
         else Some None)
      else if matchesWildcard X d (wildcardNames X names)
      then Discovered (stored (routeAdvertiser e)) d else None)"
  by (auto simp: updateDomains_def Let_def carryForward_def UpdateRoutesInfoToStore_def
      ReadRouteInfoFromStore_def
      loop_newWildcards loop_oldDiscovered loop_newDiscovered in_set_count_list split: option.splits)


lemma lookupDomain_eta: "domains e = Some m \<Longrightarrow> lookupDomain e = m"
  by (rule ext) (simp add: lookupDomain_def)

lemma domains_updateDomains:
  "domains (updateDomains X names e) = Some (lookupDomain (updateDomains X names e))"
proof -
  obtain m where m: "domains (updateDomains X names e) = Some m"
    by (simp add: updateDomains_def Let_def)
  then show ?thesis by (simp add: lookupDomain_eta [OF m])
qed

lemma wildcards_updateDomains: "wildcards (updateDomains X names e) = wildcardNames X names"
  by (simp add: updateDomains_def Let_def loop_newWildcards)

lemma frame_updateDomains:
  "controlRoutes (updateDomains X names e) = controlRoutes e"
  "queue (updateDomains X names e) = queue e"
  "failing (routeAdvertiser (updateDomains X names e)) = failing (routeAdvertiser e)"
  "Corp (stored (routeAdvertiser (updateDomains X names e))) = Corp (stored (routeAdvertiser e))"
  "calls (routeAdvertiser (updateDomains X names e)) =
     calls (routeAdvertiser e) @
       [UpdateRoutesInfoToStoreCall (stored (routeAdvertiser (updateDomains X names e)))]"
  by (simp_all add: updateDomains_def Let_def UpdateRoutesInfoToStore_def ReadRouteInfoFromStore_def)

lemma domainAddrs_updateDomains_twice:
  "lookupDomain (updateDomains X names (updateDomains X names e)) d =
   lookupDomain (updateDomains X names e) d"
  by (simp add: lookupDomain_updateDomains [of X names "updateDomains X names e"] domainAddrs_def)
     (simp add: lookupDomain_updateDomains)

lemma Discovered_updateDomains_twice:
  "Discovered (stored (routeAdvertiser (updateDomains X names (updateDomains X names e)))) d =
   Discovered (stored (routeAdvertiser (updateDomains X names e))) d"
  by (simp add: Discovered_updateDomains [of X names "updateDomains X names e"])
     (simp add: Discovered_updateDomains)


text \<open>
  C1. Let \<open>d\<close> be a domain with an address list in \<^verbatim>\<open>e.domains\<close> and a
  discovered-route record in the store. When \<^verbatim>\<open>updateDomains\<close> runs with a list that
  does not name \<open>d\<close> as an exact domain and has a wildcard entry \<open>w\<close> whose suffix
  matches \<open>d\<close>, the new domain map holds the same address list for \<open>d\<close> and the
  persisted discovered-route map the same record.
\<close>

theorem wildcard_covered_domain_carried_forward:
  assumes "lookupDomain e d = Some addrs"
    and "Discovered (stored (routeAdvertiser e)) d = Some dr"
    and "d \<notin> set (exactNames X names)"
    and "w \<in> set names" and "HasPrefix (ToLower X w) ''*.''"
    and "HasSuffix X d (drop 2 (ToLower X w))"
  shows "lookupDomain (updateDomains X names e) d = Some addrs \<and>
         Discovered (stored (routeAdvertiser (updateDomains X names e))) d = Some dr"
proof -
  have "ToLower X w \<noteq> []" using assms(5) by (auto simp: HasPrefix_def)
  then have "drop 2 (ToLower X w) \<in> set (wildcardNames X names)"
    using assms(4,5) by (auto simp: wildcardNames_def)
  then have "matchesWildcard X d (wildcardNames X names)"
    using assms(6) by (auto simp: matchesWildcard_iff)
  then show ?thesis
    using assms(1,2,3) by (simp add: lookupDomain_updateDomains Discovered_updateDomains)
qed

theorem wildcard_covered_domain_carried_forward_witness:
  "lookupDomain discoveredConnector ''a.example.com'' = Some [Addr4 1] \<and>
   Discovered (stored (routeAdvertiser discoveredConnector)) ''a.example.com'' = Some (Some 7) \<and>
   ''a.example.com'' \<notin> set (exactNames exampleExterns [''*.example.com'', ''b.example.org'']) \<and>
   HasPrefix (ToLower exampleExterns ''*.example.com'') ''*.'' \<and>
   HasSuffix exampleExterns ''a.example.com'' (drop 2 (ToLower exampleExterns ''*.example.com'')) \<and>
   lookupDomain (updateDomains exampleExterns [''*.example.com'', ''b.example.org''] discoveredConnector)
     ''a.example.com'' = Some [Addr4 1] \<and>
   Discovered (stored (routeAdvertiser
     (updateDomains exampleExterns [''*.example.com'', ''b.example.org''] discoveredConnector)))
     ''a.example.com'' = Some (Some 7)"
proof -
  have h1: "lookupDomain discoveredConnector ''a.example.com'' = Some [Addr4 1]"
    by (simp add: lookupDomain_def discoveredConnector_def)
  have h2: "Discovered (stored (routeAdvertiser discoveredConnector)) ''a.example.com'' = Some (Some 7)"
    by (simp add: discoveredConnector_def)
  have h3: "''a.example.com'' \<notin> set (exactNames exampleExterns [''*.example.com'', ''b.example.org''])"
    by (simp add: exactNames_def exampleExterns_def HasPrefix_def)
  have h4: "''*.example.com'' \<in> set [''*.example.com'', ''b.example.org'']" by simp
  have h5: "HasPrefix (ToLower exampleExterns ''*.example.com'') ''*.''"
    by (simp add: exampleExterns_def HasPrefix_def)
  have h6: "HasSuffix exampleExterns ''a.example.com'' (drop 2 (ToLower exampleExterns ''*.example.com''))"
    by (simp add: exampleExterns_def)
  from wildcard_covered_domain_carried_forward [OF h1 h2 h3 h4 h5 h6] h1 h2 h3 h5 h6
  show ?thesis by simp
qed

text \<open>
  C9. When the supplied list names the exact domain \<open>d\<close> more than once, \<open>d\<close> ends
  with an empty (nil) address list in the new domain map and with a nil discovered-route
  record in the persisted map, whatever was discovered for it before: the first occurrence
  deletes \<open>d\<close> from the old maps, and each later one assigns what the old maps then
  give for an absent key.
\<close>

theorem duplicate_exact_domain_loses_addresses:
  assumes "1 < count_list (exactNames X names) d"
  shows "lookupDomain (updateDomains X names e) d = Some [] \<and>
         Discovered (stored (routeAdvertiser (updateDomains X names e))) d = Some None"
proof -
  have "d \<in> set (exactNames X names)" using assms by (simp add: in_set_count_list)
  then show ?thesis using assms
    by (simp add: lookupDomain_updateDomains Discovered_updateDomains)
qed

theorem duplicate_exact_domain_loses_addresses_witness:
  "1 < count_list (exactNames exampleExterns [''a.example.com'', ''a.example.com'']) ''a.example.com'' \<and>
   lookupDomain discoveredConnector ''a.example.com'' = Some [Addr4 1] \<and>
   lookupDomain (updateDomains exampleExterns [''a.example.com'', ''a.example.com''] discoveredConnector)
     ''a.example.com'' = Some [] \<and>
   Discovered (stored (routeAdvertiser
     (updateDomains exampleExterns [''a.example.com'', ''a.example.com''] discoveredConnector)))
     ''a.example.com'' = Some None"
proof -
  have h1: "1 < count_list (exactNames exampleExterns [''a.example.com'', ''a.example.com'']) ''a.example.com''"
    by (simp add: exactNames_def exampleExterns_def HasPrefix_def)
  have h2: "lookupDomain discoveredConnector ''a.example.com'' = Some [Addr4 1]"
    by (simp add: lookupDomain_def discoveredConnector_def)
  from duplicate_exact_domain_loses_addresses [OF h1, of discoveredConnector] h1 h2
  show ?thesis by simp
qed

text \<open>
  C6. Running \<^verbatim>\<open>updateDomains\<close> a second time with the same list changes nothing but
  the trace of calls to the route advertiser, to which it adds one
  \<^verbatim>\<open>UpdateRoutesInfoToStore\<close> of the snapshot that is stored already: the domain map,
  the wildcard list and the persisted route info are those of the first run, and the second
  run calls neither \<^verbatim>\<open>AdvertiseRoute\<close> nor \<^verbatim>\<open>UnadvertiseRoute\<close>.
\<close>

theorem updateDomains_idempotent:
  "updateDomains X names (updateDomains X names e) =
     (updateDomains X names e)
       \<lparr>routeAdvertiser := (routeAdvertiser (updateDomains X names e))
          \<lparr>calls := calls (routeAdvertiser (updateDomains X names e)) @
             [UpdateRoutesInfoToStoreCall (stored (routeAdvertiser (updateDomains X names e)))]\<rparr>\<rparr>"
proof -
  let ?e1 = "updateDomains X names e"
  let ?e2 = "updateDomains X names ?e1"
  have st: "stored (routeAdvertiser ?e2) = stored (routeAdvertiser ?e1)"
  proof (rule RouteInfo.equality)
    show "Corp (stored (routeAdvertiser ?e2)) = Corp (stored (routeAdvertiser ?e1))"
      by (simp add: frame_updateDomains)
    show "Discovered (stored (routeAdvertiser ?e2)) = Discovered (stored (routeAdvertiser ?e1))"
      by (rule ext) (rule Discovered_updateDomains_twice)
  qed simp
  have ra: "routeAdvertiser ?e2 =
      (routeAdvertiser ?e1)\<lparr>calls := calls (routeAdvertiser ?e1) @
             [UpdateRoutesInfoToStoreCall (stored (routeAdvertiser ?e1))]\<rparr>"
  proof (rule RouteAdvertiser.equality)
    show "calls (routeAdvertiser ?e2) = calls ((routeAdvertiser ?e1)\<lparr>calls := calls (routeAdvertiser ?e1) @
             [UpdateRoutesInfoToStoreCall (stored (routeAdvertiser ?e1))]\<rparr>)"
      using frame_updateDomains(5) [of X names ?e1] st by simp
  qed (simp_all add: st frame_updateDomains(3))
  have dm: "domains ?e2 = domains ?e1"
    by (simp add: domains_updateDomains) (rule ext, rule domainAddrs_updateDomains_twice)
  show ?thesis
    by (rule AppConnector.equality) (simp_all add: ra dm wildcards_updateDomains frame_updateDomains(1,2))
qed

theorem updateDomains_idempotent_witness:
  "domains (updateDomains exampleExterns [''*.example.com'', ''b.example.org'']
     (updateDomains exampleExterns [''*.example.com'', ''b.example.org''] discoveredConnector))
   = domains (updateDomains exampleExterns [''*.example.com'', ''b.example.org''] discoveredConnector) \<and>
   wildcards (updateDomains exampleExterns [''*.example.com'', ''b.example.org'']
     (updateDomains exampleExterns [''*.example.com'', ''b.example.org''] discoveredConnector))
   = [''example.com''] \<and>
   length (calls (routeAdvertiser (updateDomains exampleExterns [''*.example.com'', ''b.example.org'']
     (updateDomains exampleExterns [''*.example.com'', ''b.example.org''] discoveredConnector)))) = 2"
  by (subst updateDomains_idempotent, simp, subst updateDomains_idempotent,
      simp add: wildcards_updateDomains wildcardNames_def exampleExterns_def HasPrefix_def
        frame_updateDomains(5) discoveredConnector_def)

subsection \<open>updateRoutes\<close>

lemma scanAddrs_find:
  "scanAddrs r as = map_option singlePrefix (find (\<lambda>a. Contains r a \<and> singlePrefix a \<noteq> r) as)"
  by (induction as) (auto simp: singlePrefix_def)

lemma find_append_first:
  "find P (xs @ ys) = (case find P xs of None \<Rightarrow> find P ys | Some x \<Rightarrow> Some x)"
  by (induction xs) auto

lemma scanDomains_find:
  "scanDomains r ls =
     map_option singlePrefix (find (\<lambda>a. Contains r a \<and> singlePrefix a \<noteq> r) (concat ls))"
  by (induction ls) (auto simp: scanAddrs_find find_append_first split: option.splits)

lemma scanDomains_firstSubsumed:
  "(case scanDomains r ls of Some pfx \<Rightarrow> acc @ [pfx] | None \<Rightarrow> acc) = acc @ firstSubsumed r (concat ls)"
  by (simp add: scanDomains_find firstSubsumed_def split: option.splits)

lemma subsumedLoop_concat:
  "subsumedLoop ord i rs e acc =
     acc @ concat (map (\<lambda>(k, r). firstSubsumed r (concat (rangeDomains e (ord k)))) (enumerate i rs))"
proof (induction rs arbitrary: i acc)
  case Nil show ?case by simp
next
  case (Cons r rs)
  show ?case
    by (cases "scanDomains r (rangeDomains e (ord i))")
       (simp_all add: Cons.IH scanDomains_find firstSubsumed_def split: option.splits)
qed

lemma subsumedLoop_subsumedRoutes: "subsumedLoop ord 0 routes e [] = subsumedRoutes ord routes e"
  by (simp add: subsumedLoop_concat subsumedRoutes_def)

lemma length_firstSubsumed: "length (firstSubsumed r as) \<le> Suc 0"
  by (simp add: firstSubsumed_def split: option.splits)

lemma length_concat_le:
  assumes "\<And>x. x \<in> set xs \<Longrightarrow> length (f x) \<le> 1"
  shows "length (concat (map f xs)) \<le> length xs"
  using assms
proof (induction xs)
  case Nil show ?case by simp
next
  case (Cons a xs)
  have "length (f a) \<le> 1" using Cons.prems by simp
  moreover have "length (concat (map f xs)) \<le> length xs" using Cons by simp
  ultimately show ?case by simp
qed

lemma length_subsumedRoutes: "length (subsumedRoutes ord routes e) \<le> length routes"
proof -
  have "length (concat (map (\<lambda>(i, r). firstSubsumed r (concat (rangeDomains e (ord i))))
          (enumerate 0 routes))) \<le> length (enumerate 0 routes)"
    by (rule length_concat_le) (auto simp: length_firstSubsumed)
  then show ?thesis by (simp add: subsumedRoutes_def)
qed

lemma staleRoutes_filter: "staleRoutes old routes acc = acc @ filter (\<lambda>ipp. ipp \<notin> set routes) old"
  by (induction old arbitrary: acc) auto

lemma updateRoutes_unfold:
  assumes "controlRoutes e \<noteq> routes"
  shows "updateRoutes ord routes e =
     (if failing (routeAdvertiser e) (unadvertisedStale routes e) (AdvertiseRouteCall routes)
      then e\<lparr>routeAdvertiser := (routeAdvertiser e)
              \<lparr>calls := unadvertisedStale routes e @ [AdvertiseRouteCall routes]\<rparr>\<rparr>
      else e\<lparr>controlRoutes := routes,
             routeAdvertiser := (routeAdvertiser e)
               \<lparr>stored := (stored (routeAdvertiser e))\<lparr>Corp := routes\<rparr>,
                calls := unadvertisedStale routes e @
                  [AdvertiseRouteCall routes,
                   UnadvertiseRouteCall (subsumedRoutes ord routes e),
                   UpdateRoutesInfoToStoreCall ((stored (routeAdvertiser e))\<lparr>Corp := routes\<rparr>)]\<rparr>\<rparr>)"
  using assms
  by (simp add: updateRoutes_def Let_def AdvertiseRoute_def UnadvertiseRoute_def
      UpdateRoutesInfoToStore_def ReadRouteInfoFromStore_def unadvertisedStale_def
      subsumedLoop_subsumedRoutes)


lemma firstSubsumed_sound:
  assumes "p \<in> set (firstSubsumed r as)"
  shows "p \<noteq> r \<and> (\<exists>a\<in>set as. p = singlePrefix a \<and> Contains r a)"
proof -
  from assms obtain a where a: "find (\<lambda>a. Contains r a \<and> singlePrefix a \<noteq> r) as = Some a"
    and p: "p = singlePrefix a"
    by (cases "find (\<lambda>a. Contains r a \<and> singlePrefix a \<noteq> r) as")
       (auto simp: firstSubsumed_def)
  from a have "Contains r a \<and> singlePrefix a \<noteq> r \<and> a \<in> set as"
    by (auto simp: find_Some_iff)
  with p show ?thesis by blast
qed


text \<open>
  C4. Let the supplied routes differ from \<^verbatim>\<open>controlRoutes\<close>. If the call
  \<^verbatim>\<open>AdvertiseRoute(routes...)\<close> fails, \<^verbatim>\<open>updateRoutes\<close> returns a connector
  that differs from the one it started with in the trace of calls only (the unadvertise of
  the stale prefixes and the failed advertise): \<^verbatim>\<open>controlRoutes\<close> and the stored route
  info are the old ones and no \<^verbatim>\<open>UpdateRoutesInfoToStore\<close> was called, so the next
  call of \<^verbatim>\<open>updateRoutes\<close> compares with the old baseline. If the call succeeds,
  \<^verbatim>\<open>controlRoutes\<close> and \<^verbatim>\<open>Corp\<close> of the stored route info are the new routes,
  and the store was written after the advertise call.
\<close>

theorem failed_advertise_keeps_baseline:
  assumes "controlRoutes e \<noteq> routes"
  shows "if failing (routeAdvertiser e) (unadvertisedStale routes e) (AdvertiseRouteCall routes)
         then updateRoutes ord routes e =
                e\<lparr>routeAdvertiser := (routeAdvertiser e)
                    \<lparr>calls := unadvertisedStale routes e @ [AdvertiseRouteCall routes]\<rparr>\<rparr> \<and>
              controlRoutes (updateRoutes ord routes e) = controlRoutes e \<and>
              stored (routeAdvertiser (updateRoutes ord routes e)) = stored (routeAdvertiser e)
         else controlRoutes (updateRoutes ord routes e) = routes \<and>
              stored (routeAdvertiser (updateRoutes ord routes e)) =
                (stored (routeAdvertiser e))\<lparr>Corp := routes\<rparr> \<and>
              calls (routeAdvertiser (updateRoutes ord routes e)) =
                unadvertisedStale routes e @
                  [AdvertiseRouteCall routes,
                   UnadvertiseRouteCall (subsumedLoop ord 0 routes e []),
                   UpdateRoutesInfoToStoreCall ((stored (routeAdvertiser e))\<lparr>Corp := routes\<rparr>)]"
  by (simp add: updateRoutes_unfold [OF assms] subsumedLoop_subsumedRoutes)

theorem failed_advertise_keeps_baseline_witness:
  "controlRoutes refusedConnector \<noteq> [PrefixFrom (Addr4 0x0A000000) 24] \<and>
   failing (routeAdvertiser refusedConnector)
     (unadvertisedStale [PrefixFrom (Addr4 0x0A000000) 24] refusedConnector)
     (AdvertiseRouteCall [PrefixFrom (Addr4 0x0A000000) 24]) \<and>
   updateRoutes (\<lambda>i. [''a.example.com'']) [PrefixFrom (Addr4 0x0A000000) 24] refusedConnector =
     refusedConnector\<lparr>routeAdvertiser := (routeAdvertiser refusedConnector)
       \<lparr>calls := [UnadvertiseRouteCall [], AdvertiseRouteCall [PrefixFrom (Addr4 0x0A000000) 24]]\<rparr>\<rparr> \<and>
   controlRoutes (updateRoutes (\<lambda>i. [''a.example.com'']) [PrefixFrom (Addr4 0x0A000000) 24]
     refusedConnector) = [] \<and>
   \<not> failing (routeAdvertiser twoAddrConnector)
     (unadvertisedStale [PrefixFrom (Addr4 0x0A000000) 24] twoAddrConnector)
     (AdvertiseRouteCall [PrefixFrom (Addr4 0x0A000000) 24]) \<and>
   controlRoutes (updateRoutes (\<lambda>i. [''a.example.com'']) [PrefixFrom (Addr4 0x0A000000) 24]
     twoAddrConnector) = [PrefixFrom (Addr4 0x0A000000) 24] \<and>
   Corp (stored (routeAdvertiser (updateRoutes (\<lambda>i. [''a.example.com''])
     [PrefixFrom (Addr4 0x0A000000) 24] twoAddrConnector))) = [PrefixFrom (Addr4 0x0A000000) 24]"
proof -
  have h1: "controlRoutes refusedConnector \<noteq> [PrefixFrom (Addr4 0x0A000000) 24]"
    by (simp add: refusedConnector_def twoAddrConnector_def)
  have h2: "controlRoutes twoAddrConnector \<noteq> [PrefixFrom (Addr4 0x0A000000) 24]"
    by (simp add: twoAddrConnector_def)
  have f1: "failing (routeAdvertiser refusedConnector)
     (unadvertisedStale [PrefixFrom (Addr4 0x0A000000) 24] refusedConnector)
     (AdvertiseRouteCall [PrefixFrom (Addr4 0x0A000000) 24])"
    by (simp add: refusedConnector_def)
  have f2: "\<not> failing (routeAdvertiser twoAddrConnector)
     (unadvertisedStale [PrefixFrom (Addr4 0x0A000000) 24] twoAddrConnector)
     (AdvertiseRouteCall [PrefixFrom (Addr4 0x0A000000) 24])"
    by (simp add: twoAddrConnector_def)
  have u: "unadvertisedStale [PrefixFrom (Addr4 0x0A000000) 24] refusedConnector = [UnadvertiseRouteCall []]"
    by (simp add: unadvertisedStale_def refusedConnector_def twoAddrConnector_def)
  have c: "controlRoutes refusedConnector = []"
    by (simp add: refusedConnector_def twoAddrConnector_def)
  from failed_advertise_keeps_baseline [OF h1, of "\<lambda>i. [''a.example.com'']"]
       failed_advertise_keeps_baseline [OF h2, of "\<lambda>i. [''a.example.com'']"]
       h1 f1 f2
  show ?thesis by (simp add: u c)
qed

text \<open>
  Claim C3. Let the supplied routes differ from \<^verbatim>\<open>controlRoutes\<close> and let the call
  \<^verbatim>\<open>AdvertiseRoute(routes...)\<close> succeed. Right after that call \<^verbatim>\<open>updateRoutes\<close>
  unadvertises exactly \<open>subsumedRoutes\<close>: for each new prefix in turn at most one
  single-address prefix, that of the first address in the visited address lists that the
  prefix contains and whose single-address prefix is not that prefix; so there are no more of
  them than new prefixes, each one differs from the prefix whose scan chose it, and belongs to
  an address that this prefix contains. The exclusion holds within the scan of one prefix
  only: the scan of another new prefix that contains the address can choose it, as the
  example after the theorem shows.
\<close>

theorem subsumed_routes_first_match_per_prefix:
  assumes "controlRoutes e \<noteq> routes"
    and "\<not> failing (routeAdvertiser e) (unadvertisedStale routes e) (AdvertiseRouteCall routes)"
  shows "calls (routeAdvertiser (updateRoutes ord routes e)) =
           unadvertisedStale routes e @
             [AdvertiseRouteCall routes,
              UnadvertiseRouteCall (subsumedRoutes ord routes e),
              UpdateRoutesInfoToStoreCall ((stored (routeAdvertiser e))\<lparr>Corp := routes\<rparr>)] \<and>
         length (subsumedRoutes ord routes e) \<le> length routes \<and>
         (\<forall>i<length routes. \<forall>p\<in>set (firstSubsumed (routes ! i) (concat (rangeDomains e (ord i)))).
            p \<noteq> routes ! i \<and>
            (\<exists>a\<in>set (concat (rangeDomains e (ord i))). p = singlePrefix a \<and> Contains (routes ! i) a))"
proof (intro conjI allI impI ballI)
  show "calls (routeAdvertiser (updateRoutes ord routes e)) =
           unadvertisedStale routes e @
             [AdvertiseRouteCall routes,
              UnadvertiseRouteCall (subsumedRoutes ord routes e),
              UpdateRoutesInfoToStoreCall ((stored (routeAdvertiser e))\<lparr>Corp := routes\<rparr>)]"
    using assms(2) by (simp add: updateRoutes_unfold [OF assms(1)])
  show "length (subsumedRoutes ord routes e) \<le> length routes"
    by (rule length_subsumedRoutes)
next
  fix i p
  assume "p \<in> set (firstSubsumed (routes ! i) (concat (rangeDomains e (ord i))))"
  from firstSubsumed_sound [OF this]
  show "p \<noteq> routes ! i"
    and "\<exists>a\<in>set (concat (rangeDomains e (ord i))). p = singlePrefix a \<and> Contains (routes ! i) a"
    by blast+
qed

theorem subsumed_routes_first_match_per_prefix_witness:
  "controlRoutes twoAddrConnector \<noteq> [PrefixFrom (Addr4 0x0A000000) 24] \<and>
   \<not> failing (routeAdvertiser twoAddrConnector)
     (unadvertisedStale [PrefixFrom (Addr4 0x0A000000) 24] twoAddrConnector)
     (AdvertiseRouteCall [PrefixFrom (Addr4 0x0A000000) 24]) \<and>
   Contains (PrefixFrom (Addr4 0x0A000000) 24) (Addr4 0x0A000002) \<and>
   calls (routeAdvertiser (updateRoutes (\<lambda>i. [''a.example.com''])
     [PrefixFrom (Addr4 0x0A000000) 24] twoAddrConnector)) =
     [UnadvertiseRouteCall [],
      AdvertiseRouteCall [PrefixFrom (Addr4 0x0A000000) 24],
      UnadvertiseRouteCall [singlePrefix (Addr4 0x0A000001)],
      UpdateRoutesInfoToStoreCall \<lparr>Corp = [PrefixFrom (Addr4 0x0A000000) 24], Discovered = Map.empty\<rparr>]"
proof -
  have h1: "controlRoutes twoAddrConnector \<noteq> [PrefixFrom (Addr4 0x0A000000) 24]"
    by (simp add: twoAddrConnector_def)
  have h2: "\<not> failing (routeAdvertiser twoAddrConnector)
     (unadvertisedStale [PrefixFrom (Addr4 0x0A000000) 24] twoAddrConnector)
     (AdvertiseRouteCall [PrefixFrom (Addr4 0x0A000000) 24])"
    by (simp add: twoAddrConnector_def)
  have h3: "Contains (PrefixFrom (Addr4 0x0A000000) 24) (Addr4 0x0A000002)"
    by (simp add: Contains_def PrefixFrom_def IsValid_def Bits_def)
  have s: "subsumedRoutes (\<lambda>i. [''a.example.com'']) [PrefixFrom (Addr4 0x0A000000) 24] twoAddrConnector
      = [singlePrefix (Addr4 0x0A000001)]"
    by (simp add: subsumedRoutes_def firstSubsumed_def rangeDomains_def List.map_filter_def
        lookupDomain_def twoAddrConnector_def enumerate_eq_zip singlePrefix_def Contains_def
        PrefixFrom_def IsValid_def Bits_def)
  have u: "unadvertisedStale [PrefixFrom (Addr4 0x0A000000) 24] twoAddrConnector = [UnadvertiseRouteCall []]"
    by (simp add: unadvertisedStale_def twoAddrConnector_def)
  have st: "stored (routeAdvertiser twoAddrConnector) = \<lparr>Corp = [], Discovered = Map.empty\<rparr>"
    by (simp add: twoAddrConnector_def)
  from subsumed_routes_first_match_per_prefix [OF h1 h2, of "\<lambda>i. [''a.example.com'']"] h1 h2 h3
  show ?thesis by (simp add: s u st)
qed

text \<open>
  An address whose single-address prefix is one of the new prefixes is not always kept. The
  connector has discovered \<open>10.0.0.1\<close> and \<open>10.0.0.2\<close>; with the new routes
  \<open>10.0.0.1/32\<close> and \<open>10.0.0.0/24\<close> the scan of the first prefix passes over
  \<open>10.0.0.1\<close>, and the scan of the second finds it first and unadvertises
  \<open>10.0.0.1/32\<close>, a prefix of the list that was advertised just before.
\<close>

theorem address_equal_to_new_prefix_removed:
  "singlePrefix (Addr4 0x0A000001) \<in> set [PrefixFrom (Addr4 0x0A000001) 32, PrefixFrom (Addr4 0x0A000000) 24] \<and>
   calls (routeAdvertiser (updateRoutes (\<lambda>i. [''a.example.com''])
     [PrefixFrom (Addr4 0x0A000001) 32, PrefixFrom (Addr4 0x0A000000) 24] twoAddrConnector)) =
     [UnadvertiseRouteCall [],
      AdvertiseRouteCall [PrefixFrom (Addr4 0x0A000001) 32, PrefixFrom (Addr4 0x0A000000) 24],
      UnadvertiseRouteCall [PrefixFrom (Addr4 0x0A000001) 32],
      UpdateRoutesInfoToStoreCall
        \<lparr>Corp = [PrefixFrom (Addr4 0x0A000001) 32, PrefixFrom (Addr4 0x0A000000) 24],
         Discovered = Map.empty\<rparr>]"
proof -
  let ?routes = "[PrefixFrom (Addr4 0x0A000001) 32, PrefixFrom (Addr4 0x0A000000) 24]"
  have h1: "controlRoutes twoAddrConnector \<noteq> ?routes"
    by (simp add: twoAddrConnector_def)
  have s: "subsumedRoutes (\<lambda>i. [''a.example.com'']) ?routes twoAddrConnector
      = [PrefixFrom (Addr4 0x0A000001) 32]"
    by (simp add: subsumedRoutes_def firstSubsumed_def rangeDomains_def List.map_filter_def
        lookupDomain_def twoAddrConnector_def enumerate_eq_zip singlePrefix_def Contains_def
        PrefixFrom_def IsValid_def Bits_def)
  have u: "unadvertisedStale ?routes twoAddrConnector = [UnadvertiseRouteCall []]"
    by (simp add: unadvertisedStale_def twoAddrConnector_def)
  have st: "stored (routeAdvertiser twoAddrConnector) = \<lparr>Corp = [], Discovered = Map.empty\<rparr>"
    and f: "failing (routeAdvertiser twoAddrConnector) = (\<lambda>h c. False)"
    by (simp_all add: twoAddrConnector_def)
  have sp: "singlePrefix (Addr4 0x0A000001) = PrefixFrom (Addr4 0x0A000001) 32"
    by (simp add: singlePrefix_def)
  show ?thesis
    by (simp add: updateRoutes_unfold [OF h1] s u st f sp)
qed

subsection \<open>ObserveDNSResponse on a malformed message\<close>

lemma types_distinct: "TypeCNAME \<noteq> TypeA" "TypeCNAME \<noteq> TypeAAAA" "TypeA \<noteq> TypeAAAA"
  "TypeA \<noteq> TypeCNAME" "TypeAAAA \<noteq> TypeCNAME" "TypeAAAA \<noteq> TypeA"
  by (simp_all add: TypeA_def TypeCNAME_def TypeAAAA_def)

lemma parserError_answersLoop:
  "parserError X P p \<Longrightarrow> answersLoop X P p cn ar = Some None"
proof (induction arbitrary: cn ar rule: parserError.induct)
  case (headerError p)
  then show ?case by (subst answersLoop.simps) simp
next
  case (skipError p h p1)
  then show ?case by (subst answersLoop.simps) (auto simp: skipped_def)
next
  case (skipNext p h p1 p2)
  then show ?case by (subst answersLoop.simps) (auto simp: skipped_def)
next
  case (emptyName p h p1)
  then show ?case by (subst answersLoop.simps) (auto simp: skipped_def ownerName_def Let_def)
next
  case (cnameError p h p1)
  then show ?case by (subst answersLoop.simps) (auto simp: skipped_def ownerName_def Let_def)
next
  case (cnameNext p h p1 r p2)
  then show ?case by (subst answersLoop.simps) (auto simp: skipped_def ownerName_def Let_def)
next
  case (addressError p h p1)
  then show ?case
    by (subst answersLoop.simps) (auto simp: skipped_def ownerName_def Let_def types_distinct)
next
  case (addressNext p h p1 a p2)
  then show ?case
    by (subst answersLoop.simps) (auto simp: skipped_def ownerName_def Let_def types_distinct)
next
  case (address6Error p h p1)
  then show ?case
    by (subst answersLoop.simps) (auto simp: skipped_def ownerName_def Let_def types_distinct)
next
  case (address6Next p h p1 b p2)
  then show ?case
    by (subst answersLoop.simps) (auto simp: skipped_def ownerName_def Let_def types_distinct)
qed

text \<open>
  When \<^verbatim>\<open>Start\<close> or \<^verbatim>\<open>SkipAllQuestions\<close> returns an error, or a method of the
  parser returns one to the loop over the answers, \<^verbatim>\<open>ObserveDNSResponse\<close> returns
  without a panic and the connector is the one it was called on.
\<close>

lemma parser_error_returns_unchanged:
  assumes "Start P res = None \<or>
           (\<exists>p0. Start P res = Some p0 \<and>
              (SkipAllQuestions P p0 = None \<or>
               (\<exists>p1. SkipAllQuestions P p0 = Some p1 \<and> parserError X P p1)))"
  shows "ObserveDNSResponse X P visit res e = Some (Inr e)"
  using assms by (auto simp: ObserveDNSResponse_def parserError_answersLoop)

text \<open>
  The loop does not end at an answer that is not skipped and has the empty owner name, when
  \<^verbatim>\<open>AnswerHeader\<close> leaves the parser where it is, as the parser of
  \<^verbatim>\<open>dnsmessage\<close> does until the resource is read or skipped: the
  \<^verbatim>\<open>continue\<close> reads the same header again.
\<close>

lemma answersLoop_repeats_aux:
  assumes "answersLoop X P p cn ar = Some y"
  shows "\<not> (\<exists>h. AnswerHeader P p = Header h p \<and> \<not> skipped h \<and> ownerName X h = [])"
proof -
  let ?Q = "\<lambda>t (y :: (cnameChain \<times> addressRecords) option).
      case t of ((((X, P), p), cn :: cnameChain), ar :: addressRecords) \<Rightarrow>
        \<not> (\<exists>h. AnswerHeader P p = Header h p \<and> \<not> skipped h \<and> ownerName X h = [])"
  have "?Q ((((X, P), p), cn), ar) y"
  proof (rule answersLoop.raw_induct [where Pa = ?Q, OF _ assms], goal_cases)
    case (1 f X P p cn ar y)
    show ?case
    proof (clarsimp)
      fix h
      assume h: "AnswerHeader P p = Header h p" "\<not> skipped h" "ownerName X h = []"
      with 1(2) have "f X P p cn ar = Some y"
        by (auto simp: skipped_def ownerName_def Let_def)
      from 1(1) [OF this] h show False by auto
    qed
  qed
  then show ?thesis by simp
qed

lemma answersLoop_repeats:
  assumes "AnswerHeader P p = Header h p" and "\<not> skipped h" and "ownerName X h = []"
  shows "answersLoop X P p cn ar = None"
proof (cases "answersLoop X P p cn ar")
  case None then show ?thesis .
next
  case (Some y)
  from answersLoop_repeats_aux [OF this] assms show ?thesis by blast
qed

text \<open>
  Claim C5. \<^verbatim>\<open>ObserveDNSResponse\<close> does not return on every message whose parsing
  fails. The record of \<open>rootMessage\<close> has class INET, type A and the root as owner
  name, and its resource data cannot be read. The name is empty once the dot is trimmed, so
  the loop continues without reading or skipping the resource, \<^verbatim>\<open>AnswerHeader\<close>
  gives the same header again, and no call that could fail is ever made: for every connector
  the function does not return. With the owner name \<^verbatim>\<open>a.example.com.\<close> the same
  unreadable record, after a readable one, makes it return with the connector unchanged.
\<close>

theorem root_owner_answer_never_returns:
  "AResource (listParser rootMessage) rootMessage = None \<and>
   ObserveDNSResponse exampleExterns (listParser rootMessage) visit (replicate 12 0) e = None \<and>
   ObserveDNSResponse exampleExterns (listParser truncatedMessage) visit (replicate 12 0) e = Some (Inr e)"
proof -
  have a: "AResource (listParser rootMessage) rootMessage = None"
    by (simp add: listParser_def rootMessage_def)
  have h: "AnswerHeader (listParser rootMessage) rootMessage
             = Header \<lparr>hName = ''.'', hType = TypeA, hClass = ClassINET\<rparr> rootMessage"
    by (simp add: listParser_def rootMessage_def)
  have s: "\<not> skipped \<lparr>hName = ''.'', hType = TypeA, hClass = ClassINET\<rparr>"
    by (simp add: skipped_def)
  have n: "ownerName exampleExterns \<lparr>hName = ''.'', hType = TypeA, hClass = ClassINET\<rparr> = []"
    by (simp add: ownerName_def exampleExterns_def TrimSuffix_def)
  have "answersLoop exampleExterns (listParser rootMessage) rootMessage Map.empty [] = None"
    by (rule answersLoop_repeats [OF h s n])
  moreover have "Start (listParser rootMessage) (replicate 12 0) = Some rootMessage"
    and "SkipAllQuestions (listParser rootMessage) rootMessage = Some rootMessage"
    by (simp_all add: listParser_def)
  ultimately have r: "ObserveDNSResponse exampleExterns (listParser rootMessage) visit (replicate 12 0) e = None"
    by (simp add: ObserveDNSResponse_def)
  have t: "ObserveDNSResponse exampleExterns (listParser truncatedMessage) visit (replicate 12 0) e = Some (Inr e)"
    by (simp add: ObserveDNSResponse_def listParser_def truncatedMessage_def answersLoop.simps
        exampleExterns_def TypeA_def TypeCNAME_def TypeAAAA_def ClassINET_def TrimSuffix_def Let_def)
  from a r t show ?thesis by blast
qed

subsection \<open>ObserveDNSResponse on a routed domain\<close>

lemma setDomain_frame:
  "setDomain d as e = Inr e1 \<Longrightarrow>
     routeAdvertiser e1 = routeAdvertiser e \<and> controlRoutes e1 = controlRoutes e \<and>
     wildcards e1 = wildcards e \<and> queue e1 = queue e"
  by (auto simp: setDomain_def split: option.splits)

lemma sortDomain_frame:
  "routeAdvertiser (sortDomain d e) = routeAdvertiser e \<and> controlRoutes (sortDomain d e) = controlRoutes e \<and>
     wildcards (sortDomain d e) = wildcards e \<and> queue (sortDomain d e) = queue e"
  by (auto simp: sortDomain_def split: option.splits)

lemma lookupDomain_sortDomain_None:
  "(lookupDomain (sortDomain d e) d' = None) = (lookupDomain e d' = None)"
  by (auto simp: sortDomain_def lookupDomain_def split: option.splits)

lemma add_frame:
  "addDomainAddrLocked d a e = Inr e1 \<Longrightarrow>
     routeAdvertiser e1 = routeAdvertiser e \<and> controlRoutes e1 = controlRoutes e \<and>
     wildcards e1 = wildcards e \<and> queue e1 = queue e"
  by (auto simp: addDomainAddrLocked_def sortDomain_frame dest: setDomain_frame split: sum.splits)

lemma add_lookup_None:
  "addDomainAddrLocked d a e = Inr e1 \<Longrightarrow> lookupDomain e d' \<noteq> None \<Longrightarrow> lookupDomain e1 d' \<noteq> None"
  by (auto simp: addDomainAddrLocked_def setDomain_def sortDomain_def lookupDomain_def
      split: option.splits if_splits)

lemma add_total:
  "lookupDomain e d' \<noteq> None \<Longrightarrow> \<exists>e1. addDomainAddrLocked d a e = Inr e1"
  by (auto simp: addDomainAddrLocked_def setDomain_def lookupDomain_def split: option.splits)

lemma delete_frame:
  "deleteDomainAddrLocked d a e = Inr e1 \<Longrightarrow>
     routeAdvertiser e1 = routeAdvertiser e \<and> controlRoutes e1 = controlRoutes e \<and>
     wildcards e1 = wildcards e \<and> queue e1 = queue e"
  by (auto simp: deleteDomainAddrLocked_def sortDomain_frame dest: setDomain_frame
      split: sum.splits prod.splits if_splits)

lemma matchWildcards_frame:
  assumes "matchWildcards X domain wcs e = Inr (r, e1)" and "lookupDomain e domain = None"
  shows "routeAdvertiser e1 = routeAdvertiser e \<and> controlRoutes e1 = controlRoutes e \<and>
     wildcards e1 = wildcards e \<and> queue e1 = queue e \<and>
     (\<forall>x. domainAddrs e1 x = domainAddrs e x) \<and>
     (\<forall>x. lookupDomain e x \<noteq> None \<longrightarrow> lookupDomain e1 x \<noteq> None) \<and>
     (r \<longrightarrow> lookupDomain e1 domain \<noteq> None) \<and>
     r = matchesWildcard X domain wcs"
  using assms
proof (induction wcs)
  case Nil then show ?case by simp
next
  case (Cons wc wcs)
  show ?case
  proof (cases "HasSuffix X domain wc")
    case False
    with Cons show ?thesis by simp
  next
    case True
    with Cons.prems obtain e' where s: "setDomain domain [] e = Inr e'" and r: "r = True" "e1 = e'"
      by (auto split: sum.splits)
    have "\<forall>x. domainAddrs e' x = domainAddrs e x"
      using Cons.prems(2) by (simp add: domainAddrs_setDomain [OF s]) (simp add: domainAddrs_def)
    moreover have "\<forall>x. lookupDomain e x \<noteq> None \<longrightarrow> lookupDomain e' x \<noteq> None"
      by (simp add: lookupDomain_setDomain [OF s])
    moreover have "lookupDomain e' domain \<noteq> None"
      by (simp add: lookupDomain_setDomain [OF s])
    ultimately show ?thesis using True r setDomain_frame [OF s] by simp
  qed
qed

lemma frameOK_trans:
  "frameOK e d0 r0 e0 \<Longrightarrow> frameOK e0 d r e1 \<Longrightarrow> frameOK e d r e1"
  by (simp add: frameOK_def)

lemma findRouted_frame_aux:
  assumes "findRoutedDomainLocked X domain cn e = Some y"
  shows "\<forall>d r e1. y = Inr (d, r, e1) \<longrightarrow> frameOK e d r e1"
proof (rule findRoutedDomainLocked.raw_induct
    [where P = "\<lambda>X domain cn e y. \<forall>d r e1. y = Inr (d, r, e1) \<longrightarrow> frameOK e d r e1", OF _ assms])
  fix f :: "'a externs \<Rightarrow> string \<Rightarrow> cnameChain \<Rightarrow> 'a AppConnector \<Rightarrow> (panic + (string \<times> bool \<times> 'a AppConnector)) option"
  fix X domain cn e y
  assume IH: "\<And>domain cnameChain e b y. f domain cnameChain e b = Some y \<Longrightarrow>
      \<forall>d r e1. y = Inr (d, r, e1) \<longrightarrow> frameOK b d r e1"
  assume eq: "(if lookupDomain e domain \<noteq> None then Some (Inr (domain, True, e))
      else case matchWildcards X domain (wildcards e) e of
           Inl p \<Rightarrow> Some (Inl p)
           | Inr (isRouted, e1) \<Rightarrow>
               case cn domain of
               None \<Rightarrow> Some (Inr (domain, isRouted, e1))
               | Some next \<Rightarrow> f X next cn e1) = Some y"
  show "\<forall>d r e1. y = Inr (d, r, e1) \<longrightarrow> frameOK e d r e1"
  proof (cases "lookupDomain e domain \<noteq> None")
    case True
    with eq have "y = Inr (domain, True, e)" by simp
    with True show ?thesis by (simp add: frameOK_def)
  next
    case False
    then have none: "lookupDomain e domain = None" by simp
    show ?thesis
    proof (cases "matchWildcards X domain (wildcards e) e")
      case (Inl p)
      with eq none have "y = Inl p" by simp
      then show ?thesis by simp
    next
      case (Inr re)
      obtain r0 e0 where re: "re = (r0, e0)" by (cases re)
      have fr: "frameOK e domain r0 e0"
        using matchWildcards_frame [OF Inr [unfolded re] none] by (simp add: frameOK_def)
      show ?thesis
      proof (cases "cn domain")
        case None
        with eq none Inr re have "y = Inr (domain, r0, e0)" by simp
        with fr show ?thesis by simp
      next
        case (Some nxt)
        with eq none Inr re have "f X nxt cn e0 = Some y" by simp
        from IH [OF this] fr show ?thesis by (blast intro: frameOK_trans)
      qed
    qed
  qed
qed

lemma findRouted_frame:
  assumes "findRoutedDomainLocked X domain cn e = Some (Inr (d, r, e1))"
  shows "frameOK e d r e1"
  using findRouted_frame_aux [OF assms] by simp

lemma list_ex_iff_bex: "list_ex Pr xs = (\<exists>x\<in>set xs. Pr x)"
  by (induction xs) auto

lemma isAddrKnownLoop_eq:
  "isAddrKnownLoop routes d a e =
     (if list_ex (\<lambda>route. Contains route a) routes
      then (case addDomainAddrLocked d a e of Inl p \<Rightarrow> Inl p | Inr e1 \<Rightarrow> Inr (True, e1))
      else Inr (False, e))"
  by (induction routes) auto

lemma isAddrKnownLocked_eq:
  assumes "sortedDomains e"
  shows "isAddrKnownLocked d a e =
     (if a \<in> set (domainAddrs e d) then Inr (True, e)
      else if coveredByControl e a
      then (case addDomainAddrLocked d a e of Inl p \<Rightarrow> Inl p | Inr e1 \<Rightarrow> Inr (True, e1))
      else Inr (False, e))"
  by (simp add: isAddrKnownLocked_def hasDomainAddrLocked_iff [OF assms] isAddrKnownLoop_eq
      coveredByControl_def)

lemma classifyAddrs_eq:
  assumes "sortedDomains e" and "lookupDomain e d \<noteq> None"
  shows "\<exists>e'. classifyAddrs d addrs tA tU e =
           Inr (tA @ map singlePrefix (newAddrs e d addrs),
                tU @ map singlePrefix (filter (\<lambda>a. \<not> (a \<notin> set (domainAddrs e d) \<and> \<not> coveredByControl e a)) addrs),
                e') \<and>
         set (domainAddrs e' d) = set (domainAddrs e d) \<union> {a \<in> set addrs. coveredByControl e a} \<and>
         (\<forall>x. x \<noteq> d \<longrightarrow> domainAddrs e' x = domainAddrs e x) \<and>
         (\<forall>x. lookupDomain e x \<noteq> None \<longrightarrow> lookupDomain e' x \<noteq> None) \<and>
         sortedDomains e' \<and>
         routeAdvertiser e' = routeAdvertiser e \<and> controlRoutes e' = controlRoutes e \<and>
         wildcards e' = wildcards e \<and> queue e' = queue e"
  using assms
proof (induction addrs arbitrary: e tA tU)
  case Nil
  then show ?case by (simp add: newAddrs_def)
next
  case (Cons a as)
  show ?case
  proof (cases "a \<notin> set (domainAddrs e d) \<and> coveredByControl e a")
    case True
    obtain e1 where add: "addDomainAddrLocked d a e = Inr e1"
      using add_total [OF Cons.prems(2)] by blast
    have s1: "sortedDomains e1" using sortedDomains_add [OF add Cons.prems(1)] .
    have l1: "lookupDomain e1 d \<noteq> None" using add_lookup_None [OF add Cons.prems(2)] .
    have set1: "set (domainAddrs e1 d) = insert a (set (domainAddrs e d))"
      by (simp add: domainAddrs_add [OF add] set_SortFunc)
    have cov1: "\<And>b. coveredByControl e1 b = coveredByControl e b"
      using add_frame [OF add] by (simp add: coveredByControl_def)
    have new1: "newAddrs e1 d as = newAddrs e d as"
      unfolding newAddrs_def using True by (auto simp: set1 cov1 intro!: filter_cong)
    have upd1: "filter (\<lambda>b. \<not> (b \<notin> set (domainAddrs e1 d) \<and> \<not> coveredByControl e1 b)) as
        = filter (\<lambda>b. \<not> (b \<notin> set (domainAddrs e d) \<and> \<not> coveredByControl e b)) as"
      using True by (auto simp: set1 cov1 intro!: filter_cong)
    have step: "classifyAddrs d (a # as) tA tU e = classifyAddrs d as tA (tU @ [singlePrefix a]) e1"
      using True add by (simp add: isAddrKnownLocked_eq [OF Cons.prems(1)] singlePrefix_def)
    from Cons.IH [OF s1 l1, of tA "tU @ [singlePrefix a]"]
    obtain e' where IH: "classifyAddrs d as tA (tU @ [singlePrefix a]) e1 =
           Inr (tA @ map singlePrefix (newAddrs e1 d as),
                (tU @ [singlePrefix a]) @ map singlePrefix (filter (\<lambda>a. \<not> (a \<notin> set (domainAddrs e1 d) \<and> \<not> coveredByControl e1 a)) as),
                e')"
        "set (domainAddrs e' d) = set (domainAddrs e1 d) \<union> {a \<in> set as. coveredByControl e1 a}"
        "\<forall>x. x \<noteq> d \<longrightarrow> domainAddrs e' x = domainAddrs e1 x"
        "\<forall>x. lookupDomain e1 x \<noteq> None \<longrightarrow> lookupDomain e' x \<noteq> None"
        "sortedDomains e'"
        "routeAdvertiser e' = routeAdvertiser e1 \<and> controlRoutes e' = controlRoutes e1 \<and>
         wildcards e' = wildcards e1 \<and> queue e' = queue e1"
      by blast
    have other: "\<forall>x. x \<noteq> d \<longrightarrow> domainAddrs e1 x = domainAddrs e x"
      by (simp add: domainAddrs_add [OF add])
    have keep: "\<forall>x. lookupDomain e x \<noteq> None \<longrightarrow> lookupDomain e1 x \<noteq> None"
      using add_lookup_None [OF add] by blast
    have res: "classifyAddrs d (a # as) tA tU e =
           Inr (tA @ map singlePrefix (newAddrs e d (a # as)),
                tU @ map singlePrefix (filter (\<lambda>a. \<not> (a \<notin> set (domainAddrs e d) \<and> \<not> coveredByControl e a)) (a # as)),
                e')"
      unfolding step IH(1) new1 upd1 using True by (simp add: newAddrs_def)
    have sets: "set (domainAddrs e' d) = set (domainAddrs e d) \<union> {b \<in> set (a # as). coveredByControl e b}"
      using True by (auto simp: IH(2) set1 cov1)
    show ?thesis
      using res sets IH(3,4,5,6) other keep add_frame [OF add] by (intro exI [of _ e']) simp
  next
    case False
    have step: "classifyAddrs d (a # as) tA tU e =
        (if a \<in> set (domainAddrs e d) then classifyAddrs d as tA (tU @ [singlePrefix a]) e
         else classifyAddrs d as (tA @ [singlePrefix a]) tU e)"
      using False by (auto simp: isAddrKnownLocked_eq [OF Cons.prems(1)] singlePrefix_def)
    show ?thesis
    proof (cases "a \<in> set (domainAddrs e d)")
      case True
      from Cons.IH [OF Cons.prems, of tA "tU @ [singlePrefix a]"] True
      show ?thesis unfolding step by (auto simp: newAddrs_def)
    next
      case notin: False
      with False have nc: "\<not> coveredByControl e a" by simp
      from Cons.IH [OF Cons.prems, of "tA @ [singlePrefix a]" tU] notin nc
      show ?thesis unfolding step by (auto simp: newAddrs_def)
    qed
  qed
qed

lemma singlePrefix_inj: "singlePrefix a = singlePrefix b \<Longrightarrow> a = b"
  by (simp add: singlePrefix_def PrefixFrom_def)

lemma sortedDomains_cong: "(\<And>x. domainAddrs e1 x = domainAddrs e x) \<Longrightarrow> sortedDomains e1 = sortedDomains e"
  by (simp add: sortedDomains_def)

lemma coveredByControl_cong: "controlRoutes e1 = controlRoutes e \<Longrightarrow> coveredByControl e1 a = coveredByControl e a"
  by (simp add: coveredByControl_def)

lemma observeRouted_eq:
  assumes "sortedDomains e" and "lookupDomain e d \<noteq> None"
  shows "\<exists>e' outDated. observeRouted X d addrs e = Inr e' \<and>
      queue e' = queue e @ [AdvertisementTask d (map singlePrefix (newAddrs e d addrs)),
                            UnadvertisementTask d outDated] \<and>
      (outDated, stored (routeAdvertiser e')) =
         OutDatedRoutesInDiscoveredForDomain X d
           (UpdateRoutesInDiscoveredForDomain X d
              (map singlePrefix (newAddrs e d addrs) @ map singlePrefix (knownAddrs e d addrs))
              (stored (routeAdvertiser e))) \<and>
      set (domainAddrs e' d) = set (domainAddrs e d) \<union> {a \<in> set addrs. coveredByControl e a} \<and>
      (\<forall>x. x \<noteq> d \<longrightarrow> domainAddrs e' x = domainAddrs e x) \<and>
      (\<forall>x. lookupDomain e x \<noteq> None \<longrightarrow> lookupDomain e' x \<noteq> None) \<and>
      sortedDomains e' \<and> controlRoutes e' = controlRoutes e \<and> wildcards e' = wildcards e"
proof -
  from classifyAddrs_eq [OF assms, of addrs "[]" "[]"]
  obtain e1 where c: "classifyAddrs d addrs [] [] e =
           Inr (map singlePrefix (newAddrs e d addrs), map singlePrefix (knownAddrs e d addrs), e1)"
     and f: "set (domainAddrs e1 d) = set (domainAddrs e d) \<union> {a \<in> set addrs. coveredByControl e a}"
         "\<forall>x. x \<noteq> d \<longrightarrow> domainAddrs e1 x = domainAddrs e x"
         "\<forall>x. lookupDomain e x \<noteq> None \<longrightarrow> lookupDomain e1 x \<noteq> None"
         "sortedDomains e1"
         "routeAdvertiser e1 = routeAdvertiser e" "controlRoutes e1 = controlRoutes e"
         "wildcards e1 = wildcards e" "queue e1 = queue e"
    by (auto simp: knownAddrs_def)
  obtain outDated ri2 where o: "OutDatedRoutesInDiscoveredForDomain X d
           (UpdateRoutesInDiscoveredForDomain X d
              (map singlePrefix (newAddrs e d addrs) @ map singlePrefix (knownAddrs e d addrs))
              (stored (routeAdvertiser e))) = (outDated, ri2)"
    by (cases "OutDatedRoutesInDiscoveredForDomain X d
           (UpdateRoutesInDiscoveredForDomain X d
              (map singlePrefix (newAddrs e d addrs) @ map singlePrefix (knownAddrs e d addrs))
              (stored (routeAdvertiser e)))")
  let ?e' = "scheduleUndvertisement d outDated
                        (scheduleAdvertisement d (map singlePrefix (newAddrs e d addrs))
                          (e1\<lparr>routeAdvertiser :=
                                UpdateRoutesInfoToStore ri2 (routeAdvertiser e1)\<rparr>))"
  have r: "observeRouted X d addrs e = Inr ?e'"
    by (simp add: observeRouted_def c Let_def ReadRouteInfoFromStore_def f(5) o)
  have da: "\<And>x. domainAddrs ?e' x = domainAddrs e1 x" "\<And>x. lookupDomain ?e' x = lookupDomain e1 x"
    by (simp_all add: domainAddrs_def lookupDomain_def scheduleUndvertisement_def scheduleAdvertisement_def)
  have sd: "sortedDomains ?e'" using f(4) by (simp add: sortedDomains_def da)
  have q: "queue ?e' = queue e @ [AdvertisementTask d (map singlePrefix (newAddrs e d addrs)),
                            UnadvertisementTask d outDated]"
    by (simp add: scheduleUndvertisement_def scheduleAdvertisement_def f(8))
  have st: "stored (routeAdvertiser ?e') = ri2"
    by (simp add: scheduleUndvertisement_def scheduleAdvertisement_def UpdateRoutesInfoToStore_def)
  have cw: "controlRoutes ?e' = controlRoutes e" "wildcards ?e' = wildcards e"
    by (simp_all add: scheduleUndvertisement_def scheduleAdvertisement_def f(6,7))
  show ?thesis
    apply (intro exI [of _ ?e'] exI [of _ outDated])
    using f(1,2,3) by (simp add: r da o q st cw sd)
qed

text \<open>
  Claim C10. When \<^verbatim>\<open>ObserveDNSResponse\<close> handles the addresses of a name whose walk
  ends at the routed domain \<open>d\<close>, an address that a control route contains is never put
  on the list of routes to advertise: the advertisement scheduled for \<open>d\<close> carries
  exactly the single-address prefixes of the addresses that were neither known for \<open>d\<close>
  nor covered by control, and no prefix of a covered address. The covered addresses are
  on the list of \<open>d\<close> when the iteration ends, before any task has run, and they
  are part of the routes handed to \<^verbatim>\<open>UpdateRoutesInDiscoveredForDomain\<close> with the known
  ones. The lists are sorted, as they are in every state the connector reaches.
\<close>

theorem covered_address_known_not_advertised:
  assumes "findRoutedDomainLocked X name cn e = Some (Inr (d, True, e1))" and "sortedDomains e"
  shows "\<exists>e' outDated. observeEntry X cn (name, addrs) e = Some (Inr e') \<and>
      queue e' = queue e @ [AdvertisementTask d (map singlePrefix (newAddrs e d addrs)),
                            UnadvertisementTask d outDated] \<and>
      (outDated, stored (routeAdvertiser e')) =
         OutDatedRoutesInDiscoveredForDomain X d
           (UpdateRoutesInDiscoveredForDomain X d
              (map singlePrefix (newAddrs e d addrs) @ map singlePrefix (knownAddrs e d addrs))
              (stored (routeAdvertiser e))) \<and>
      set (domainAddrs e' d) = set (domainAddrs e d) \<union> {a \<in> set addrs. coveredByControl e a} \<and>
      (\<forall>a. coveredByControl e a \<longrightarrow> singlePrefix a \<notin> set (map singlePrefix (newAddrs e d addrs)))"
proof -
  note fr = findRouted_frame [OF assms(1), unfolded frameOK_def]
  have s1: "sortedDomains e1" using assms(2) fr by (simp add: sortedDomains_def)
  have l1: "lookupDomain e1 d \<noteq> None" using fr by simp
  have n: "newAddrs e1 d addrs = newAddrs e d addrs" "knownAddrs e1 d addrs = knownAddrs e d addrs"
    "\<And>a. coveredByControl e1 a = coveredByControl e a"
    using fr by (simp_all add: newAddrs_def knownAddrs_def coveredByControl_def)
  have oe: "observeEntry X cn (name, addrs) e = Some (observeRouted X d addrs e1)"
    by (simp add: observeEntry_def assms(1))
  have nc: "\<forall>a. coveredByControl e a \<longrightarrow> singlePrefix a \<notin> set (map singlePrefix (newAddrs e d addrs))"
    by (auto simp: newAddrs_def dest: singlePrefix_inj)
  from observeRouted_eq [OF s1 l1, of X addrs] fr nc show ?thesis
    unfolding oe n by auto
qed

theorem covered_address_known_not_advertised_witness:
  "findRoutedDomainLocked exampleExterns ''a.example.com'' Map.empty coveredConnector
     = Some (Inr (''a.example.com'', True, coveredConnector)) \<and>
   sortedDomains coveredConnector \<and>
   coveredByControl coveredConnector (Addr4 0x0A000007) \<and>
   \<not> coveredByControl coveredConnector (Addr4 0xC0000201) \<and>
   (\<exists>e' outDated.
      observeEntry exampleExterns Map.empty
        (''a.example.com'', [Addr4 0x0A000001, Addr4 0x0A000007, Addr4 0xC0000201]) coveredConnector
        = Some (Inr e') \<and>
      queue e' = [AdvertisementTask ''a.example.com'' [singlePrefix (Addr4 0xC0000201)],
                  UnadvertisementTask ''a.example.com'' outDated] \<and>
      set (domainAddrs e' ''a.example.com'') = {Addr4 0x0A000001, Addr4 0x0A000007})"
proof -
  let ?addrs = "[Addr4 0x0A000001, Addr4 0x0A000007, Addr4 0xC0000201]"
  have w1: "findRoutedDomainLocked exampleExterns ''a.example.com'' Map.empty coveredConnector
     = Some (Inr (''a.example.com'', True, coveredConnector))"
    by (simp add: findRoutedDomainLocked.simps coveredConnector_def lookupDomain_def)
  have w2: "sortedDomains coveredConnector"
    by (simp add: sortedDomains_def sortedAddrs_def coveredConnector_def domainAddrs_def lookupDomain_def)
  have c: "coveredByControl coveredConnector (Addr4 0x0A000001)"
      "coveredByControl coveredConnector (Addr4 0x0A000007)"
      "\<not> coveredByControl coveredConnector (Addr4 0xC0000201)"
    by (simp_all add: coveredByControl_def coveredConnector_def Contains_def PrefixFrom_def
        IsValid_def Bits_def)
  have d: "domainAddrs coveredConnector ''a.example.com'' = [Addr4 0x0A000001]"
    and q: "queue coveredConnector = []"
    by (simp_all add: coveredConnector_def domainAddrs_def lookupDomain_def)
  have n: "newAddrs coveredConnector ''a.example.com'' ?addrs = [Addr4 0xC0000201]"
    by (simp add: newAddrs_def c d)
  have s: "{a \<in> set ?addrs. coveredByControl coveredConnector a} = {Addr4 0x0A000001, Addr4 0x0A000007}"
    using c by auto
  from covered_address_known_not_advertised [OF w1 w2, of ?addrs]
  obtain e' outDated where
    "observeEntry exampleExterns Map.empty (''a.example.com'', ?addrs) coveredConnector = Some (Inr e')"
    "queue e' = [AdvertisementTask ''a.example.com'' [singlePrefix (Addr4 0xC0000201)],
                  UnadvertisementTask ''a.example.com'' outDated]"
    "set (domainAddrs e' ''a.example.com'') = {Addr4 0x0A000001, Addr4 0x0A000007}"
    unfolding n s d q by auto
  then show ?thesis using w1 w2 c by blast
qed

subsection \<open>The walk of findRoutedDomainLocked\<close>

lemma pending_step:
  "ObserveDNSResponse exampleExterns (listParser aliasMessage) (\<lambda>ar. ar) (replicate 12 0) configuredConnector
   = Some (Inr pendingConnector)"
  by (simp add: ObserveDNSResponse_def listParser_def aliasMessage_def answersLoop.simps
        exampleExterns_def TypeA_def TypeCNAME_def TypeAAAA_def ClassINET_def TrimSuffix_def Let_def
        recordsOf_def observeEntry_def findRoutedDomainLocked.simps configuredConnector_def lookupDomain_def setDomain_def
        observeRouted_def isAddrKnownLocked_def hasDomainAddrLocked_def BinarySearchFunc_def bsearchLoop.simps domainAddrs_def
        scheduleAdvertisement_def scheduleUndvertisement_def singlePrefix_def ReadRouteInfoFromStore_def UpdateRoutesInfoToStore_def
        pendingConnector_def)

text \<open>
  Claim C2. The walk of \<^verbatim>\<open>findRoutedDomainLocked\<close> does not stop at a name that a
  wildcard covers. With the wildcard \<^verbatim>\<open>example.com\<close> and the alias edge from
  \<^verbatim>\<open>a.example.com\<close> back to \<^verbatim>\<open>other.net\<close>, the walk creates the entry for
  \<^verbatim>\<open>a.example.com\<close>, leaves the loop over the wildcards only, follows the edge and
  returns \<^verbatim>\<open>other.net\<close> as not routed; \<^verbatim>\<open>ObserveDNSResponse\<close> then drops the
  address \<open>203.0.113.5\<close> of \<open>aliasMessage\<close> and schedules nothing. With
  \<^verbatim>\<open>a.example.com\<close> configured as an exact domain the same walk stops there, and the
  same message schedules the advertisement of \<open>203.0.113.5/32\<close>.
\<close>

theorem wildcard_match_does_not_stop_the_walk:
  "findRoutedDomainLocked exampleExterns ''a.example.com'' [''a.example.com'' \<mapsto> ''other.net''] wildcardConnector
     = Some (Inr (''other.net'', False, wildcardConnector\<lparr>domains := Some [''a.example.com'' \<mapsto> []]\<rparr>)) \<and>
   ObserveDNSResponse exampleExterns (listParser aliasMessage) (\<lambda>ar. ar) (replicate 12 0) wildcardConnector
     = Some (Inr (wildcardConnector\<lparr>domains := Some [''a.example.com'' \<mapsto> []]\<rparr>)) \<and>
   findRoutedDomainLocked exampleExterns ''a.example.com'' [''a.example.com'' \<mapsto> ''other.net''] configuredConnector
     = Some (Inr (''a.example.com'', True, configuredConnector)) \<and>
   ObserveDNSResponse exampleExterns (listParser aliasMessage) (\<lambda>ar. ar) (replicate 12 0) configuredConnector
     = Some (Inr pendingConnector)"
proof -
  have b1: "findRoutedDomainLocked exampleExterns ''a.example.com'' [''a.example.com'' \<mapsto> ''other.net''] wildcardConnector
     = Some (Inr (''other.net'', False, wildcardConnector\<lparr>domains := Some [''a.example.com'' \<mapsto> []]\<rparr>))"
    by (simp add: findRoutedDomainLocked.simps wildcardConnector_def lookupDomain_def setDomain_def
        exampleExterns_def)
  have b2: "findRoutedDomainLocked exampleExterns ''a.example.com'' [''a.example.com'' \<mapsto> ''other.net''] configuredConnector
     = Some (Inr (''a.example.com'', True, configuredConnector))"
    by (simp add: findRoutedDomainLocked.simps configuredConnector_def lookupDomain_def)
  have b3: "ObserveDNSResponse exampleExterns (listParser aliasMessage) (\<lambda>ar. ar) (replicate 12 0) wildcardConnector
     = Some (Inr (wildcardConnector\<lparr>domains := Some [''a.example.com'' \<mapsto> []]\<rparr>))"
    by (simp add: ObserveDNSResponse_def listParser_def aliasMessage_def answersLoop.simps
        exampleExterns_def TypeA_def TypeCNAME_def TypeAAAA_def ClassINET_def TrimSuffix_def Let_def
        recordsOf_def observeEntry_def findRoutedDomainLocked.simps wildcardConnector_def
        lookupDomain_def setDomain_def)
  from b1 b2 b3 pending_step show ?thesis by blast
qed

subsection \<open>Lists without repetition in every reachable state\<close>

lemma strict_sorted: "strictDomains e \<Longrightarrow> sortedDomains e"
  by (simp add: strictDomains_def sortedDomains_def)

lemma strictDomains_cong: "(\<And>x. domainAddrs e1 x = domainAddrs e x) \<Longrightarrow> strictDomains e1 = strictDomains e"
  by (simp add: strictDomains_def)

lemma distinct_insertFunc: "distinct (insertFunc cmp a bs) = (a \<notin> set bs \<and> distinct bs)"
  by (induction bs) (auto simp: set_insertFunc)

lemma distinct_SortFunc: "distinct (SortFunc as cmp) = distinct as"
  by (induction as) (auto simp: distinct_insertFunc set_SortFunc)

lemma strict_add:
  assumes "addDomainAddrLocked d a e = Inr e1" "strictDomains e" "a \<notin> set (domainAddrs e d)"
  shows "strictDomains e1"
  using assms(2,3)
  by (simp add: strictDomains_def domainAddrs_add [OF assms(1)] sorted_SortFunc distinct_SortFunc)

lemma distinct_Delete: "distinct x \<Longrightarrow> distinct (Delete x i (Suc i))"
  unfolding Delete_def
  using set_take_disj_set_drop_if_distinct [of x i "Suc i"] by simp

lemma strict_delete:
  assumes "deleteDomainAddrLocked d a e = Inr e1" "strictDomains e"
  shows "strictDomains e1"
  using assms(2)
  by (simp add: strictDomains_def domainAddrs_delete [OF assms(1)] sorted_SortFunc distinct_SortFunc
      distinct_Delete)

lemma strict_isAddrKnown:
  assumes "isAddrKnownLocked d a e = Inr (k, e1)" "strictDomains e"
  shows "strictDomains e1"
proof -
  note eq = isAddrKnownLocked_eq [OF strict_sorted [OF assms(2)], of d a]
  show ?thesis
  proof (cases "a \<in> set (domainAddrs e d)")
    case True
    with assms eq show ?thesis by simp
  next
    case False
    show ?thesis
    proof (cases "coveredByControl e a")
      case True
      with False assms(1) eq obtain e' where "addDomainAddrLocked d a e = Inr e'" "e1 = e'"
        by (auto split: sum.splits)
      with strict_add [OF _ assms(2) False] show ?thesis by simp
    next
      case nc: False
      with False assms eq show ?thesis by simp
    qed
  qed
qed

lemma strict_classify:
  "classifyAddrs d addrs tA tU e = Inr (x, y, e') \<Longrightarrow> strictDomains e \<Longrightarrow> strictDomains e'"
proof (induction addrs arbitrary: tA tU e)
  case Nil then show ?case by simp
next
  case (Cons a as)
  from Cons.prems(1) obtain k e1 where k: "isAddrKnownLocked d a e = Inr (k, e1)"
    by (cases "isAddrKnownLocked d a e") auto
  have s1: "strictDomains e1" using strict_isAddrKnown [OF k Cons.prems(2)] .
  from Cons.prems(1) k have
    "classifyAddrs d as (if \<not> k then tA @ [PrefixFrom a (BitLen a)] else tA)
        (if \<not> k then tU else tU @ [PrefixFrom a (BitLen a)]) e1 = Inr (x, y, e')"
    by (simp split: if_splits)
  from Cons.IH [OF this s1] show ?case .
qed

lemma strict_observeRouted:
  assumes "observeRouted X d addrs e = Inr e'" "strictDomains e"
  shows "strictDomains e'"
proof -
  from assms(1) obtain tA tU e1 where c: "classifyAddrs d addrs [] [] e = Inr (tA, tU, e1)"
    by (cases "classifyAddrs d addrs [] [] e") (auto simp: observeRouted_def)
  have s1: "strictDomains e1" using strict_classify [OF c assms(2)] .
  have "\<And>x. domainAddrs e' x = domainAddrs e1 x"
    using assms(1) c
    by (auto simp: observeRouted_def Let_def domainAddrs_def lookupDomain_def
        scheduleUndvertisement_def scheduleAdvertisement_def split: prod.splits)
  then show ?thesis using s1 by (simp add: strictDomains_def)
qed

lemma strict_observeEntry:
  assumes "observeEntry X cn entry e = Some (Inr e')" "strictDomains e"
  shows "strictDomains e'"
proof -
  from assms(1) obtain d r e1 where f: "findRoutedDomainLocked X (fst entry) cn e = Some (Inr (d, r, e1))"
    by (cases "findRoutedDomainLocked X (fst entry) cn e")
       (auto simp: observeEntry_def split: sum.splits)
  note fr = findRouted_frame [OF f, unfolded frameOK_def]
  have s1: "strictDomains e1" using assms(2) fr by (simp add: strictDomains_def)
  show ?thesis
  proof (cases r)
    case True
    with assms(1) f have "observeRouted X d (snd entry) e1 = Inr e'" by (simp add: observeEntry_def)
    from strict_observeRouted [OF this s1] show ?thesis .
  next
    case False
    with assms(1) f have "e' = e1" by (simp add: observeEntry_def)
    with s1 show ?thesis by simp
  qed
qed

lemma strict_observeRecords:
  "observeRecords X cn entries e = Some (Inr e') \<Longrightarrow> strictDomains e \<Longrightarrow> strictDomains e'"
proof (induction entries arbitrary: e)
  case Nil then show ?case by simp
next
  case (Cons entry entries)
  from Cons.prems(1) obtain e1 where o: "observeEntry X cn entry e = Some (Inr e1)"
    and r: "observeRecords X cn entries e1 = Some (Inr e')"
    by (auto split: option.splits sum.splits)
  from Cons.IH [OF r strict_observeEntry [OF o Cons.prems(2)]] show ?case .
qed

lemma strict_ObserveDNSResponse:
  assumes "ObserveDNSResponse X P visit res e = Some (Inr e')" "strictDomains e"
  shows "strictDomains e'"
  using assms
  by (auto simp: ObserveDNSResponse_def split: option.splits dest: strict_observeRecords)

lemma strict_advertisedLoop:
  "advertisedLoop d routes e = Inr e' \<Longrightarrow> strictDomains e \<Longrightarrow> strictDomains e'"
proof (induction routes arbitrary: e)
  case Nil then show ?case by simp
next
  case (Cons route routes)
  show ?case
  proof (cases "IsSingleIP route \<and> \<not> hasDomainAddrLocked e d (prefixAddr route)")
    case True
    with Cons.prems(1) obtain e1 where a: "addDomainAddrLocked d (prefixAddr route) e = Inr e1"
      and r: "advertisedLoop d routes e1 = Inr e'"
      by (auto split: sum.splits)
    have "prefixAddr route \<notin> set (domainAddrs e d)"
      using True hasDomainAddrLocked_iff [OF strict_sorted [OF Cons.prems(2)]] by simp
    from Cons.IH [OF r strict_add [OF a Cons.prems(2) this]] show ?thesis .
  next
    case False
    with Cons.prems(1) have "advertisedLoop d routes e = Inr e'" by (auto split: if_splits)
    from Cons.IH [OF this Cons.prems(2)] show ?thesis .
  qed
qed

lemma strict_unadvertisedLoop:
  "unadvertisedLoop d routes e = Inr e' \<Longrightarrow> strictDomains e \<Longrightarrow> strictDomains e'"
proof (induction routes arbitrary: e)
  case Nil then show ?case by simp
next
  case (Cons route routes)
  show ?case
  proof (cases "IsSingleIP route")
    case True
    with Cons.prems(1) obtain e1 where a: "deleteDomainAddrLocked d (prefixAddr route) e = Inr e1"
      and r: "unadvertisedLoop d routes e1 = Inr e'"
      by (auto split: sum.splits)
    from Cons.IH [OF r strict_delete [OF a Cons.prems(2)]] show ?thesis .
  next
    case False
    with Cons.prems(1) have "unadvertisedLoop d routes e = Inr e'" by simp
    from Cons.IH [OF this Cons.prems(2)] show ?thesis .
  qed
qed

lemma domainAddrs_updateDomains:
  "domainAddrs (updateDomains X names e) d = domainAddrs e d \<or> domainAddrs (updateDomains X names e) d = []"
  by (simp add: domainAddrs_def [of "updateDomains X names e"] lookupDomain_updateDomains)
     (simp add: domainAddrs_def)

lemma strict_updateDomains: "strictDomains e \<Longrightarrow> strictDomains (updateDomains X names e)"
  unfolding strictDomains_def
proof (intro allI)
  fix d assume a: "\<forall>d. sortedAddrs (domainAddrs e d) \<and> distinct (domainAddrs e d)"
  from domainAddrs_updateDomains [of X names e d] a
  show "sortedAddrs (domainAddrs (updateDomains X names e) d) \<and> distinct (domainAddrs (updateDomains X names e) d)"
    by (auto simp: sortedAddrs_def)
qed

lemma domains_updateRoutes: "domains (updateRoutes ord routes e) = domains e"
  by (simp add: updateRoutes_def Let_def split: prod.splits)

lemma strict_updateRoutes: "strictDomains e \<Longrightarrow> strictDomains (updateRoutes ord routes e)"
  by (simp add: strictDomains_def domainAddrs_def lookupDomain_def domains_updateRoutes)

lemma strict_runTask:
  assumes "runTask X ord t e = Inr e'" "strictDomains e"
  shows "strictDomains e'"
proof (cases t)
  case (AdvertisementTask d routes)
  have s: "\<And>ra. strictDomains (e\<lparr>routeAdvertiser := ra\<rparr>)"
    using assms(2) by (simp add: strictDomains_def domainAddrs_def lookupDomain_def)
  from assms(1) AdvertisementTask show ?thesis
    by (auto simp: runAdvertisement_def s split: prod.splits if_splits dest: strict_advertisedLoop [OF _ s])
next
  case (UnadvertisementTask d routes)
  have s: "\<And>ra. strictDomains (e\<lparr>routeAdvertiser := ra\<rparr>)"
    using assms(2) by (simp add: strictDomains_def domainAddrs_def lookupDomain_def)
  from assms(1) UnadvertisementTask show ?thesis
    by (auto simp: runUnadvertisement_def s split: prod.splits if_splits dest: strict_unadvertisedLoop [OF _ s])
next
  case (UpdateDomainsTask names)
  with assms show ?thesis by (auto intro: strict_updateDomains)
next
  case (UpdateDomainsAndRoutesTask names routes)
  with assms show ?thesis by (auto intro: strict_updateDomains strict_updateRoutes)
qed

lemma reachable_strict: "reachable X P e \<Longrightarrow> strictDomains e"
proof (induction rule: reachable.induct)
  case (created ra)
  show ?case by (simp add: strictDomains_def sortedAddrs_def NewAppConnector_def domainAddrs_def lookupDomain_def)
next
  case (updateDomainsCalled e names)
  then show ?case by (simp add: strictDomains_def UpdateDomains_def domainAddrs_def lookupDomain_def)
next
  case (updateDomainsAndRoutesCalled e names routes)
  then show ?case by (simp add: strictDomains_def UpdateDomainsAndRoutes_def domainAddrs_def lookupDomain_def)
next
  case (observed e visit res e')
  then show ?case by (blast intro: strict_ObserveDNSResponse)
next
  case (taskRun e t ts ord e')
  have "strictDomains (e\<lparr>queue := ts\<rparr>)"
    using taskRun.IH by (simp add: strictDomains_def domainAddrs_def lookupDomain_def)
  from strict_runTask [OF taskRun.hyps(3) this] show ?case .
qed

lemma configured_step:
  "runTask exampleExterns (\<lambda>i. []) (UpdateDomainsTask [''a.example.com''])
     ((UpdateDomains [''a.example.com''] (NewAppConnector exampleAdvertiser))\<lparr>queue := []\<rparr>)
   = Inr configuredConnector"
  by (simp add: updateDomains_def NewAppConnector_def exampleAdvertiser_def exampleExterns_def Let_def
     ReadRouteInfoFromStore_def UpdateRoutesInfoToStore_def carryForward_def HasPrefix_def fun_eq_iff
     configuredConnector_def configuredInfo_def UpdateDomains_def)

lemma learned_step:
  "runTask exampleExterns (\<lambda>i. []) (AdvertisementTask ''a.example.com'' [PrefixFrom (Addr4 0xCB007105) 32])
     (pendingConnector\<lparr>queue := [UnadvertisementTask ''a.example.com'' []]\<rparr>)
   = Inr learnedConnector"
  by (simp add: pendingConnector_def learnedConnector_def runAdvertisement_def AdvertiseRoute_def
        IsSingleIP_def PrefixFrom_def IsValid_def Bits_def hasDomainAddrLocked_def BinarySearchFunc_def
        bsearchLoop.simps domainAddrs_def lookupDomain_def addDomainAddrLocked_def setDomain_def
        sortDomain_def fun_eq_iff)

lemma reachable_learnedConnector:
  "reachable exampleExterns (listParser aliasMessage) learnedConnector"
proof -
  let ?X = exampleExterns and ?P = "listParser aliasMessage"
  have "reachable ?X ?P (UpdateDomains [''a.example.com''] (NewAppConnector exampleAdvertiser))"
    by (intro reachable.updateDomainsCalled reachable.created)
  from reachable.taskRun [OF this _ configured_step]
  have "reachable ?X ?P configuredConnector"
    by (simp add: UpdateDomains_def NewAppConnector_def)
  from reachable.observed [OF this pending_step]
  have "reachable ?X ?P pendingConnector" .
  from reachable.taskRun [OF this _ learned_step]
  show ?thesis by (simp add: pendingConnector_def)
qed

text \<open>
  Claim C8. In every state the connector reaches, no list of addresses holds an address
  twice. The lists are sorted as well, so the binary search of
  \<^verbatim>\<open>hasDomainAddrLocked\<close> answers membership exactly, and the two paths that add an
  address ask it first: for an address on the list of \<open>d\<close>,
  \<^verbatim>\<open>isAddrKnownLocked\<close> reports it known and the loop of the advertisement closure
  passes over its route, both leaving the connector as it is.
\<close>

theorem no_duplicate_addresses:
  assumes "reachable X P e"
  shows "(\<forall>d. distinct (domainAddrs e d)) \<and>
         (\<forall>d a. hasDomainAddrLocked e d a = (a \<in> set (domainAddrs e d))) \<and>
         (\<forall>d a. a \<in> set (domainAddrs e d) \<longrightarrow>
            isAddrKnownLocked d a e = Inr (True, e) \<and>
            (\<forall>route. prefixAddr route = a \<longrightarrow> advertisedLoop d [route] e = Inr e))"
proof -
  have s: "strictDomains e" using reachable_strict [OF assms] .
  have h: "\<And>d a. hasDomainAddrLocked e d a = (a \<in> set (domainAddrs e d))"
    using hasDomainAddrLocked_iff [OF strict_sorted [OF s]] .
  show ?thesis
    using s by (auto simp: h strictDomains_def isAddrKnownLocked_def)
qed

theorem no_duplicate_addresses_witness:
  "reachable exampleExterns (listParser aliasMessage) learnedConnector \<and>
   domainAddrs learnedConnector ''a.example.com'' = [Addr4 0xCB007105] \<and>
   distinct (domainAddrs learnedConnector ''a.example.com'') \<and>
   hasDomainAddrLocked learnedConnector ''a.example.com'' (Addr4 0xCB007105) \<and>
   isAddrKnownLocked ''a.example.com'' (Addr4 0xCB007105) learnedConnector = Inr (True, learnedConnector) \<and>
   advertisedLoop ''a.example.com'' [PrefixFrom (Addr4 0xCB007105) 32] learnedConnector = Inr learnedConnector"
proof -
  have d: "domainAddrs learnedConnector ''a.example.com'' = [Addr4 0xCB007105]"
    by (simp add: learnedConnector_def domainAddrs_def lookupDomain_def)
  have p: "prefixAddr (PrefixFrom (Addr4 0xCB007105) 32) = Addr4 0xCB007105"
    by (simp add: PrefixFrom_def)
  from no_duplicate_addresses [OF reachable_learnedConnector] d p
  show ?thesis using reachable_learnedConnector by simp
qed

end
